theory Spec2Isabelle
  imports Main "HOL-Library.Word"
begin

unbundle bit_operations_syntax

section \<open>Protocol constants and the wire header\<close>

text \<open>
  The engine of \<^verbatim>\<open>r2p2-common.c\<close> includes \<^verbatim>\<open>r2p2/api-internal.h\<close> and
  \<^verbatim>\<open>r2p2/mempool.h\<close>, which are not among the sources. The macros the code takes
  from them are kept as parameters, collected in one record, so that every result holds
  for whatever values the headers give them. \<open>LINUX\<close> is the preprocessor switch of the
  same name.
\<close>

record r2p2_consts =
  MAGIC :: "8 word"
  F_FLAG :: "8 word"
  L_FLAG :: "8 word"
  PAYLOAD_SIZE :: nat
  MIN_PAYLOAD_SIZE :: nat
  HEADER_SIZE :: nat
  REQUEST_MSG :: "8 word"
  RESPONSE_MSG :: "8 word"
  ACK_MSG :: "8 word"
  FIXED_ROUTE :: "8 word"
  LINUX :: bool

text \<open>
  Modelled from the spec: \<^verbatim>\<open>struct r2p2_header\<close> is declared in the absent
  \<^verbatim>\<open>api-internal.h\<close>. The spec gives its fields and their widths: magic, header size,
  type and policy, flags (one byte each), the request id (two bytes) and the packet order
  (one byte).
\<close>

record r2p2_header =
  magic :: "8 word"
  header_size :: "8 word"
  type_policy :: "8 word"
  flags :: "8 word"
  rid :: "16 word"
  p_order :: "8 word"

text \<open>
  Modelled from the spec: the predicates \<^verbatim>\<open>is_first\<close>, \<^verbatim>\<open>is_last\<close> and
  \<^verbatim>\<open>is_response\<close> of the absent header. The spec defines them as
  \<^verbatim>\<open>(h.flags & F_FLAG) != 0\<close>, \<^verbatim>\<open>(h.flags & L_FLAG) != 0\<close> and
  \<^verbatim>\<open>type(h) in {RESPONSE, ACK}\<close>, where the type is the upper nibble of
  \<^verbatim>\<open>type_policy\<close>.
\<close>

definition get_msg_type :: "r2p2_header \<Rightarrow> 8 word" where
  "get_msg_type h = drop_bit 4 (type_policy h)"

definition get_policy :: "r2p2_header \<Rightarrow> 8 word" where
  "get_policy h = type_policy h AND 0x0F"

definition is_first :: "r2p2_consts \<Rightarrow> r2p2_header \<Rightarrow> bool" where
  "is_first cfg h = (flags h AND F_FLAG cfg \<noteq> 0)"

definition is_last :: "r2p2_consts \<Rightarrow> r2p2_header \<Rightarrow> bool" where
  "is_last cfg h = (flags h AND L_FLAG cfg \<noteq> 0)"

definition is_response :: "r2p2_consts \<Rightarrow> r2p2_header \<Rightarrow> bool" where
  "is_response cfg h =
     (get_msg_type h = RESPONSE_MSG cfg \<or> get_msg_type h = ACK_MSG cfg)"

record r2p2_host_tuple =
  ip :: "32 word"
  port :: "16 word"

section \<open>Buffers and messages\<close>

text \<open>
  A \<^verbatim>\<open>generic_buffer\<close> belongs to the transport. The engine sees three things of it:
  the packet memory, which starts with the header and continues with the bytes written
  behind it; the payload size that \<^verbatim>\<open>set_buffer_payload_size\<close> stores (header
  included, an \<^verbatim>\<open>int\<close>); and the link to the next buffer. A message is the chain from
  \<^verbatim>\<open>head_buffer\<close> to \<^verbatim>\<open>tail_buffer\<close>; it is kept as the list of its buffers in
  chain order, so that \<^verbatim>\<open>head_buffer\<close> is the first element, \<^verbatim>\<open>tail_buffer\<close> the
  last one, and both are \<^verbatim>\<open>NULL\<close> for the empty list. A pointer into the chain is the
  position of its buffer.
\<close>

record buffer =
  hdr :: r2p2_header
  body :: "8 word list"
  payload_size :: int

record r2p2_msg =
  buffers :: "buffer list"
  sender :: r2p2_host_tuple
  req_id :: "16 word"

datatype error = AssertFailed | NullDeref | BadAccess

text \<open>An \<^verbatim>\<open>iovec\<close> entry is the list of the \<^verbatim>\<open>iov_len\<close> bytes at \<^verbatim>\<open>iov_base\<close>.\<close>

type_synonym iovec = "8 word list"

definition zero_header :: r2p2_header where
  "zero_header = \<lparr>magic = 0, header_size = 0, type_policy = 0, flags = 0, rid = 0,
     p_order = 0\<rparr>"

definition empty_msg :: r2p2_msg where
  "empty_msg = \<lparr>buffers = [], sender = \<lparr>ip = 0, port = 0\<rparr>, req_id = 0\<rparr>"

definition set_buffer_payload_size ::
  "nat option \<Rightarrow> int \<Rightarrow> buffer list \<Rightarrow> error + buffer list" where
  "set_buffer_payload_size gb n bs =
     (case gb of
        None \<Rightarrow> Inl NullDeref
      | Some i \<Rightarrow> Inr (bs[i := (bs ! i)\<lparr>payload_size := n\<rparr>]))"

text \<open>
  \<^verbatim>\<open>r2p2_msg_add_payload\<close> links the buffer behind the tail, or makes it head and tail
  of an empty message.
\<close>

definition r2p2_msg_add_payload :: "r2p2_msg \<Rightarrow> buffer \<Rightarrow> r2p2_msg" where
  "r2p2_msg_add_payload msg gb = msg\<lparr>buffers := buffers msg @ [gb]\<rparr>"

section \<open>Assembling a message: \<^verbatim>\<open>r2p2_prepare_msg\<close>\<close>

text \<open>
  The local variables of the copy loop. \<open>copied\<close> and \<open>buffer_cnt\<close> are
  \<^verbatim>\<open>unsigned int\<close> and wrap; \<open>bufferleft\<close> only ever decreases by at most its
  own value. \<open>gb_p\<close> is the pointer \<^verbatim>\<open>gb\<close> to the buffer being filled, and
  \<^verbatim>\<open>target\<close> is the end of the bytes written into it. \<open>pool\<close> is the number of buffers \<^verbatim>\<open>get_buffer\<close> can still
  hand out: the source asserts that each call succeeds.
\<close>

record prep_state =
  iov_idx :: nat
  bufferleft :: nat
  copied :: "32 word"
  buffer_cnt :: "32 word"
  is_first_v :: bool
  gb_p :: "nat option"
  pbuffers :: "buffer list"
  pool :: nat

text \<open>\<^verbatim>\<open>iov_len - copied\<close> in \<^verbatim>\<open>size_t\<close> arithmetic (64 bits).\<close>

definition size_t_sub :: "nat \<Rightarrow> nat \<Rightarrow> nat" where
  "size_t_sub a b = (if b \<le> a then a - b else (a + 2 ^ 64 - b) mod 2 ^ 64)"

definition total_payload :: "iovec list \<Rightarrow> nat" where
  "total_payload iov = sum_list (map length iov) mod 2 ^ 32"

text \<open>The branch \<^verbatim>\<open>if (!bufferleft)\<close>: close the current buffer and start a new one.\<close>

definition prepare_alloc ::
  "r2p2_consts \<Rightarrow> 8 word \<Rightarrow> 8 word \<Rightarrow> 16 word \<Rightarrow> bool \<Rightarrow> prep_state \<Rightarrow> error + prep_state"
  where
  "prepare_alloc cfg req_type policy rq single_packet_msg st =
     (if pool st = 0 then Inl AssertFailed
      else
        let bs = pbuffers st;
            closed = (case gb_p st of
                 None \<Rightarrow> bs
               | Some i \<Rightarrow>
                   if is_first_v st
                   then bs[i := (bs ! i)\<lparr>payload_size :=
                          int (MIN_PAYLOAD_SIZE cfg) + int (HEADER_SIZE cfg)\<rparr>]
                   else bs[i := (bs ! i)\<lparr>payload_size :=
                          int (PAYLOAD_SIZE cfg) + int (HEADER_SIZE cfg)\<rparr>]);
            first = (case gb_p st of None \<Rightarrow> is_first_v st | Some i \<Rightarrow> False);
            r2p2h = \<lparr>magic = MAGIC cfg,
                     header_size = of_nat (HEADER_SIZE cfg),
                     type_policy = push_bit 4 req_type OR (0x0F AND policy),
                     flags = 0,
                     rid = rq,
                     p_order = ucast (buffer_cnt st)\<rparr>;
            new_gb = \<lparr>hdr = r2p2h, body = [], payload_size = 0\<rparr>
        in Inr (st\<lparr>pool := pool st - 1,
                   pbuffers := closed @ [new_gb],
                   gb_p := Some (length closed),
                   is_first_v := first,
                   bufferleft := (if first \<and> \<not> single_packet_msg
                                  then MIN_PAYLOAD_SIZE cfg else PAYLOAD_SIZE cfg),
                   buffer_cnt := buffer_cnt st + 1\<rparr>))"

text \<open>
  The rest of the loop body: copy \<^verbatim>\<open>min(bufferleft, iov_len - copied)\<close> bytes of the
  current entry behind the bytes already in the buffer, and move to the next entry once
  this one is exhausted. A read outside the entry, or a write while no buffer has been
  started, is an error of its own.
\<close>

definition prepare_copy :: "iovec list \<Rightarrow> prep_state \<Rightarrow> error + prep_state" where
  "prepare_copy iov st =
     (let src = iov ! iov_idx st;
          tocopy = min (bufferleft st) (size_t_sub (length src) (unat (copied st)))
      in case gb_p st of
           None \<Rightarrow> Inl BadAccess
         | Some i \<Rightarrow>
             if tocopy \<noteq> 0 \<and> length src < unat (copied st) + tocopy then Inl BadAccess
             else
               let bs = pbuffers st;
                   b = bs ! i;
                   copied' = copied st + of_nat tocopy;
                   done = (unat copied' = length src)
               in Inr (st\<lparr>pbuffers :=
                            bs[i := b\<lparr>body := body b @ take tocopy (drop (unat (copied st)) src)\<rparr>],
                          bufferleft := bufferleft st - tocopy,
                          copied := (if done then 0 else copied'),
                          iov_idx := (if done then iov_idx st + 1 else iov_idx st)\<rparr>))"

definition prepare_step ::
  "r2p2_consts \<Rightarrow> iovec list \<Rightarrow> 8 word \<Rightarrow> 8 word \<Rightarrow> 16 word \<Rightarrow> bool \<Rightarrow> prep_state
     \<Rightarrow> error + prep_state" where
  "prepare_step cfg iov req_type policy rq single_packet_msg st =
     (if bufferleft st = 0
      then (case prepare_alloc cfg req_type policy rq single_packet_msg st of
              Inl e \<Rightarrow> Inl e
            | Inr st' \<Rightarrow> prepare_copy iov st')
      else prepare_copy iov st)"

lemma size_t_sub_zero: "b < 2 ^ 64 \<Longrightarrow> size_t_sub a b = 0 \<Longrightarrow> a = b"
  by (auto simp: size_t_sub_def split: if_splits)

lemma unat_copied_bound: "unat (c :: 32 word) < 2 ^ 64"
proof -
  have "unat c < 2 ^ 32" using unsigned_less [of c] by simp
  then show ?thesis by simp
qed

lemma prepare_copy_decreases:
  assumes "prepare_copy iov st = Inr st'" and "iov_idx st < length iov"
  shows "pool st' = pool st \<and>
     (bufferleft st' < bufferleft st \<or>
      bufferleft st' = bufferleft st \<and> length iov - iov_idx st' < length iov - iov_idx st \<or>
      bufferleft st = 0 \<and> bufferleft st' = 0 \<and> iov_idx st' = iov_idx st)"
proof (cases "min (bufferleft st) (size_t_sub (length (iov ! iov_idx st)) (unat (copied st))) = 0")
  case True
  show ?thesis
  proof (cases "bufferleft st = 0")
    case True
    with assms show ?thesis
      by (auto simp: prepare_copy_def Let_def split: option.splits if_splits)
  next
    case False
    with True have "size_t_sub (length (iov ! iov_idx st)) (unat (copied st)) = 0"
      by (simp add: min_def split: if_splits)
    then have "unat (copied st) = length (iov ! iov_idx st)"
      using size_t_sub_zero [OF unat_copied_bound] by metis
    with True assms show ?thesis
      by (auto simp: prepare_copy_def Let_def split: option.splits if_splits)
  qed
next
  case False
  with assms show ?thesis
    by (auto simp: prepare_copy_def Let_def split: option.splits if_splits)
qed

lemma prepare_alloc_pool:
  "prepare_alloc cfg t p r s st = Inr st' \<Longrightarrow> pool st' < pool st \<and> iov_idx st' = iov_idx st"
  by (auto simp: prepare_alloc_def Let_def split: if_splits)

lemma prepare_step_decreases:
  assumes "prepare_step cfg iov t p r s st = Inr st'" and "iov_idx st < length iov"
  shows "((pool st', bufferleft st', length iov - iov_idx st'),
          (pool st, bufferleft st, length iov - iov_idx st))
         \<in> less_than <*lex*> less_than <*lex*> less_than"
proof (cases "bufferleft st = 0")
  case True
  with assms obtain st1 where a: "prepare_alloc cfg t p r s st = Inr st1"
    and c: "prepare_copy iov st1 = Inr st'"
    by (auto simp: prepare_step_def split: sum.splits)
  from prepare_alloc_pool [OF a] assms(2) prepare_copy_decreases [OF c]
  show ?thesis by auto
next
  case False
  with assms have c: "prepare_copy iov st = Inr st'"
    by (simp add: prepare_step_def)
  from prepare_copy_decreases [OF c assms(2)] False show ?thesis by auto
qed

text \<open>
  The \<^verbatim>\<open>while (iov_idx < (unsigned int)iovcnt)\<close> loop. Every iteration takes a
  buffer from the pool, or copies at least one byte into the current buffer, or finishes
  an entry, which gives the termination order.
\<close>

function prepare_loop ::
  "r2p2_consts \<Rightarrow> iovec list \<Rightarrow> 8 word \<Rightarrow> 8 word \<Rightarrow> 16 word \<Rightarrow> bool \<Rightarrow> prep_state
     \<Rightarrow> error + prep_state" where
  "prepare_loop cfg iov req_type policy rq single_packet_msg st =
     (if iov_idx st < length iov
      then (case prepare_step cfg iov req_type policy rq single_packet_msg st of
              Inl e \<Rightarrow> Inl e
            | Inr st' \<Rightarrow> prepare_loop cfg iov req_type policy rq single_packet_msg st')
      else Inr st)"
  by pat_completeness auto
termination
  by (relation "inv_image (less_than <*lex*> less_than <*lex*> less_than)
        (\<lambda>(cfg, iov, t, p, r, s, st). (pool st, bufferleft st, length iov - iov_idx st))")
     (use prepare_step_decreases in auto)

declare prepare_loop.simps [simp del]

text \<open>
  The whole function: the total payload and the single-packet test, the loop, the size
  of the last buffer, and the patches of the head and tail headers. The result is the
  message together with the buffers left in the pool.
\<close>

definition r2p2_prepare_msg ::
  "r2p2_consts \<Rightarrow> r2p2_msg \<Rightarrow> nat \<Rightarrow> iovec list \<Rightarrow> 8 word \<Rightarrow> 8 word \<Rightarrow> 16 word
     \<Rightarrow> error + (r2p2_msg \<times> nat)" where
  "r2p2_prepare_msg cfg msg avail iov req_type policy rq =
     (let single_packet_msg = (total_payload iov \<le> PAYLOAD_SIZE cfg);
          st0 = \<lparr>iov_idx = 0, bufferleft = 0, copied = 0, buffer_cnt = 0,
                 is_first_v = True, gb_p = None, pbuffers = buffers msg, pool = avail\<rparr>
      in case prepare_loop cfg iov req_type policy rq single_packet_msg st0 of
           Inl e \<Rightarrow> Inl e
         | Inr st \<Rightarrow>
            (case set_buffer_payload_size (gb_p st)
                    (int (PAYLOAD_SIZE cfg) + int (HEADER_SIZE cfg) - int (bufferleft st))
                    (pbuffers st) of
               Inl e \<Rightarrow> Inl e
             | Inr bs \<Rightarrow>
                 if bs = [] then Inl NullDeref
                 else
                   let h = hdr (bs ! 0);
                       bs1 = bs[0 := (bs ! 0)\<lparr>hdr := h\<lparr>flags := flags h OR F_FLAG cfg,
                                                       p_order := ucast (buffer_cnt st)\<rparr>\<rparr>];
                       k = length bs1 - 1;
                       t = hdr (bs1 ! k);
                       bs2 = bs1[k := (bs1 ! k)\<lparr>hdr := t\<lparr>flags := flags t OR L_FLAG cfg\<rparr>\<rparr>]
                   in Inr (msg\<lparr>buffers := bs2, req_id := rq\<rparr>, pool st)))"

section \<open>Pairs, pools and the engine state\<close>

text \<open>
  Modelled from the spec: the object pool of the absent \<^verbatim>\<open>mempool.h\<close>. The spec
  describes each slot as a \<open>taken\<close> flag, a link and the element; freeing clears the
  flag and keeps the slot. A pointer to a pair is the index of its slot, and
  \<^verbatim>\<open>get_object_meta\<close> goes from the pair to the slot. \<^verbatim>\<open>alloc_object\<close> hands out a
  slot that is not taken and marks it, and returns \<^verbatim>\<open>NULL\<close> when there is none.
\<close>

record 'a fixed_obj =
  taken :: bool
  elem :: 'a

definition alloc_object :: "'a fixed_obj list \<Rightarrow> nat option" where
  "alloc_object mp = find (\<lambda>i. \<not> taken (mp ! i)) [0..<length mp]"

definition free_object :: "nat \<Rightarrow> 'a fixed_obj list \<Rightarrow> 'a fixed_obj list" where
  "free_object i mp = mp[i := (mp ! i)\<lparr>taken := False\<rparr>]"

text \<open>
  Modelled from the spec: the pending lists of the absent \<^verbatim>\<open>mempool.h\<close>, intrusive
  lists through the slots. The spec has insertion at the head and removal given the slot,
  idempotent for a slot that is not in the list.
\<close>

definition add_to_list :: "nat list \<Rightarrow> nat \<Rightarrow> nat list" where
  "add_to_list l fo = fo # l"

definition remove_from_list :: "nat list \<Rightarrow> nat \<Rightarrow> nat list" where
  "remove_from_list l fo = removeAll fo l"

text \<open>
  The application context. Callbacks are application code: a call is recorded as an event
  with its arguments. \<open>timeout_cb\<close> is the one pointer the engine tests before the call.
\<close>

record r2p2_ctx =
  arg :: nat
  timeout_cb :: "nat option"
  destination :: r2p2_host_tuple
  routing_policy :: "8 word"

datatype cp_state = R2P2_W_ACK | R2P2_W_RESPONSE

text \<open>
  The width of the packet counters of a pair is declared in the absent header; they are
  taken as 16-bit fields. They are compared with \<open>p_order\<close> as integers.
\<close>

record r2p2_client_pair =
  request :: r2p2_msg
  reply :: r2p2_msg
  ctx :: r2p2_ctx
  state :: cp_state
  reply_expected_packets :: "16 word"
  reply_received_packets :: "16 word"
  timer :: "nat option"
  impl_data :: "nat option"
  on_free :: "nat option"

record r2p2_server_pair =
  srv_request :: r2p2_msg
  srv_reply :: r2p2_msg
  request_expected_packets :: "16 word"
  request_received_packets :: "16 word"

text \<open>
  What the engine does to the outside: the callbacks of the application and the calls
  into the transport, in the order in which they happen. The vector handed to the
  application has one entry per buffer: the bytes behind the header and the length
  \<^verbatim>\<open>len - sizeof(struct r2p2_header)\<close>, a \<^verbatim>\<open>size_t\<close>.
\<close>

type_synonym app_iovec = "(8 word list \<times> int) list"

datatype event =
    Success_cb nat nat app_iovec
  | Error_cb nat int
  | Timeout_cb nat
  | Recv_fn nat app_iovec
  | Buf_list_send "buffer list" r2p2_host_tuple "nat option"
  | Free_buffer buffer
  | Disarm_timer nat
  | On_free "nat option"
  | Router_notify

record r2p2_state =
  client_pairs :: "r2p2_client_pair fixed_obj list"
  server_pairs :: "r2p2_server_pair fixed_obj list"
  pending_client_pairs :: "nat list"
  pending_server_pairs :: "nat list"
  rfn :: "nat option"
  free_buffers :: nat
  trace :: "event list"

definition call :: "event \<Rightarrow> r2p2_state \<Rightarrow> r2p2_state" where
  "call e s = s\<lparr>trace := trace s @ [e]\<rparr>"

text \<open>\<^verbatim>\<open>free_buffer\<close> over a chain, as the loops of the two \<^verbatim>\<open>free_*_pair\<close> do.\<close>

definition free_buffer :: "buffer \<Rightarrow> r2p2_state \<Rightarrow> r2p2_state" where
  "free_buffer b s = s\<lparr>trace := trace s @ [Free_buffer b], free_buffers := free_buffers s + 1\<rparr>"

definition free_buffer_chain :: "buffer list \<Rightarrow> r2p2_state \<Rightarrow> r2p2_state" where
  "free_buffer_chain bs s = fold free_buffer bs s"

definition zero_ctx :: r2p2_ctx where
  "zero_ctx = \<lparr>arg = 0, timeout_cb = None, destination = \<lparr>ip = 0, port = 0\<rparr>,
     routing_policy = 0\<rparr>"

definition zero_client_pair :: r2p2_client_pair where
  "zero_client_pair = \<lparr>request = empty_msg, reply = empty_msg, ctx = zero_ctx,
     state = R2P2_W_ACK, reply_expected_packets = 0, reply_received_packets = 0,
     timer = None, impl_data = None, on_free = None\<rparr>"

definition zero_server_pair :: r2p2_server_pair where
  "zero_server_pair = \<lparr>srv_request = empty_msg, srv_reply = empty_msg,
     request_expected_packets = 0, request_received_packets = 0\<rparr>"

definition alloc_client_pair :: "r2p2_state \<Rightarrow> error + (nat \<times> r2p2_state)" where
  "alloc_client_pair s =
     (case alloc_object (client_pairs s) of
        None \<Rightarrow> Inl AssertFailed
      | Some cp \<Rightarrow>
          Inr (cp, s\<lparr>client_pairs :=
                 (client_pairs s)[cp := \<lparr>taken = True, elem = zero_client_pair\<rparr>]\<rparr>))"

definition alloc_server_pair :: "r2p2_state \<Rightarrow> error + (nat \<times> r2p2_state)" where
  "alloc_server_pair s =
     (case alloc_object (server_pairs s) of
        None \<Rightarrow> Inl AssertFailed
      | Some sp \<Rightarrow>
          Inr (sp, s\<lparr>server_pairs :=
                 (server_pairs s)[sp := \<lparr>taken = True, elem = zero_server_pair\<rparr>]\<rparr>))"

definition free_client_pair :: "r2p2_consts \<Rightarrow> nat \<Rightarrow> r2p2_state \<Rightarrow> r2p2_state" where
  "free_client_pair cfg cp s =
     (let p = elem (client_pairs s ! cp);
          s1 = free_buffer_chain (buffers (reply p)) s;
          s2 = (if LINUX cfg then free_buffer_chain (buffers (request p)) s1 else s1);
          s3 = (case on_free p of None \<Rightarrow> s2 | Some f \<Rightarrow> call (On_free (impl_data p)) s2)
      in s3\<lparr>client_pairs := free_object cp (client_pairs s3)\<rparr>)"

definition free_server_pair :: "r2p2_consts \<Rightarrow> nat \<Rightarrow> r2p2_state \<Rightarrow> r2p2_state" where
  "free_server_pair cfg sp s =
     (let p = elem (server_pairs s ! sp);
          s1 = free_buffer_chain (buffers (srv_request p)) s;
          s2 = (if LINUX cfg then free_buffer_chain (buffers (srv_reply p)) s1 else s1)
      in s2\<lparr>server_pairs := free_object sp (server_pairs s2)\<rparr>)"

definition add_to_pending_client_pairs :: "nat \<Rightarrow> r2p2_state \<Rightarrow> r2p2_state" where
  "add_to_pending_client_pairs cp s =
     s\<lparr>pending_client_pairs := add_to_list (pending_client_pairs s) cp\<rparr>"

definition add_to_pending_server_pairs :: "nat \<Rightarrow> r2p2_state \<Rightarrow> r2p2_state" where
  "add_to_pending_server_pairs sp s =
     s\<lparr>pending_server_pairs := add_to_list (pending_server_pairs s) sp\<rparr>"

definition remove_from_pending_server_pairs :: "nat \<Rightarrow> r2p2_state \<Rightarrow> r2p2_state" where
  "remove_from_pending_server_pairs sp s =
     s\<lparr>pending_server_pairs := remove_from_list (pending_server_pairs s) sp\<rparr>"

definition remove_from_pending_client_pairs :: "nat \<Rightarrow> r2p2_state \<Rightarrow> r2p2_state" where
  "remove_from_pending_client_pairs cp s =
     s\<lparr>pending_client_pairs := remove_from_list (pending_client_pairs s) cp\<rparr>"

text \<open>The two lookups scan the list from its head and return the first match.\<close>

definition find_in_pending_server_pairs ::
  "r2p2_state \<Rightarrow> 16 word \<Rightarrow> r2p2_host_tuple \<Rightarrow> nat option" where
  "find_in_pending_server_pairs s rq sndr =
     find (\<lambda>fo. let sp = elem (server_pairs s ! fo)
                in ip (sender (srv_request sp)) = ip sndr \<and>
                   port (sender (srv_request sp)) = port sndr \<and>
                   req_id (srv_request sp) = rq)
          (pending_server_pairs s)"

definition find_in_pending_client_pairs ::
  "r2p2_state \<Rightarrow> 16 word \<Rightarrow> r2p2_host_tuple \<Rightarrow> nat option" where
  "find_in_pending_client_pairs s rq sndr =
     find (\<lambda>fo. let cp = elem (client_pairs s ! fo)
                in port (sender (request cp)) = port sndr \<and> req_id (request cp) = rq)
          (pending_client_pairs s)"

text \<open>
  \<^verbatim>\<open>prepare_to_app_iovec\<close> asserts \<^verbatim>\<open>iovcnt < 0xFF\<close> after each entry, so a chain of
  255 buffers or more fails the assertion. The length of an entry is
  \<^verbatim>\<open>len - sizeof(struct r2p2_header)\<close> with \<^verbatim>\<open>len\<close> the \<^verbatim>\<open>int\<close> that the buffer
  stores as its payload size: the subtraction is done in \<^verbatim>\<open>size_t\<close> (64 bits), so a
  size below the header size, a negative one included, wraps around.
\<close>

definition prepare_to_app_iovec :: "r2p2_consts \<Rightarrow> r2p2_msg \<Rightarrow> error + app_iovec" where
  "prepare_to_app_iovec cfg msg =
     (if 255 \<le> length (buffers msg) then Inl AssertFailed
      else Inr (map (\<lambda>b. (body b, (payload_size b - int (HEADER_SIZE cfg)) mod 2 ^ 64)) (buffers msg)))"

definition set_client_pair :: "nat \<Rightarrow> r2p2_client_pair \<Rightarrow> r2p2_state \<Rightarrow> r2p2_state" where
  "set_client_pair cp p s =
     s\<lparr>client_pairs := (client_pairs s)[cp := (client_pairs s ! cp)\<lparr>elem := p\<rparr>]\<rparr>"

definition set_server_pair :: "nat \<Rightarrow> r2p2_server_pair \<Rightarrow> r2p2_state \<Rightarrow> r2p2_state" where
  "set_server_pair sp p s =
     s\<lparr>server_pairs := (server_pairs s)[sp := (server_pairs s ! sp)\<lparr>elem := p\<rparr>]\<rparr>"

section \<open>Receiving: responses, requests and the front door\<close>

text \<open>
  The three statements of both failure branches of \<^verbatim>\<open>handle_response\<close>:
  \<^verbatim>\<open>error_cb(arg, -1)\<close>, removal from the pending list, \<^verbatim>\<open>free_client_pair\<close>.
\<close>

definition response_error :: "r2p2_consts \<Rightarrow> nat \<Rightarrow> r2p2_state \<Rightarrow> r2p2_state" where
  "response_error cfg cp s =
     free_client_pair cfg cp
       (remove_from_pending_client_pairs cp
          (call (Error_cb (arg (ctx (elem (client_pairs s ! cp)))) (- 1)) s))"

text \<open>
  \<^verbatim>\<open>handle_response\<close>, built without \<^verbatim>\<open>WITH_TIMESTAMPING\<close>. The header
  \<^verbatim>\<open>r2p2h\<close> is the one at the start of \<^verbatim>\<open>gb\<close>. The pair is read from its slot,
  updated, and written back before anything else looks at it.
\<close>

definition handle_response ::
  "r2p2_consts \<Rightarrow> buffer \<Rightarrow> int \<Rightarrow> r2p2_host_tuple \<Rightarrow> r2p2_host_tuple \<Rightarrow> r2p2_state
     \<Rightarrow> error + r2p2_state" where
  "handle_response cfg gb len source local_host s =
     (let r2p2h = hdr gb
      in case find_in_pending_client_pairs s (rid r2p2h) local_host of
           None \<Rightarrow> Inr (free_buffer gb s)
         | Some cp \<Rightarrow>
            (let p0 = elem (client_pairs s ! cp);
                 p1 = p0\<lparr>reply := (reply p0)\<lparr>sender := source\<rparr>\<rparr>
             in if state p1 = R2P2_W_RESPONSE then
                  (let p2 = p1\<lparr>reply :=
                              r2p2_msg_add_payload (reply p1) (gb\<lparr>payload_size := len\<rparr>)\<rparr>
                   in if \<not> is_first cfg r2p2h \<and>
                         unat (p_order r2p2h) \<noteq> unat (reply_received_packets p2)
                      then Inr (response_error cfg cp
                             (set_client_pair cp
                                (p2\<lparr>reply_received_packets := reply_received_packets p2 + 1\<rparr>) s))
                      else
                        (let p3 = (if is_first cfg r2p2h
                                   then p2\<lparr>reply_expected_packets := ucast (p_order r2p2h),
                                           reply_received_packets := 1\<rparr>
                                   else p2\<lparr>reply_received_packets :=
                                             reply_received_packets p2 + 1\<rparr>);
                             s1 = set_client_pair cp p3 s
                         in if \<not> is_last cfg r2p2h then Inr s1
                            else
                              (let s2 = (case timer p3 of
                                           None \<Rightarrow> s1
                                         | Some t \<Rightarrow> call (Disarm_timer t) s1)
                               in if reply_received_packets p3 \<noteq> reply_expected_packets p3
                                  then Inr (response_error cfg cp s2)
                                  else (case prepare_to_app_iovec cfg (reply p3) of
                                          Inl e \<Rightarrow> Inl e
                                        | Inr v \<Rightarrow>
                                            Inr (call (Success_cb cp (arg (ctx p3)) v) s2)))))
                else if len \<noteq> int (HEADER_SIZE cfg) + 3 then Inl AssertFailed
                else
                  (let s1 = free_buffer gb (set_client_pair cp p1 s)
                   in if LINUX cfg \<and> buffers (request p1) = [] then Inl NullDeref
                      else
                        (let rest_to_send = (if LINUX cfg then tl (buffers (request p1))
                                             else buffers (request p1));
                             s2 = call (Buf_list_send rest_to_send (sender (reply p1))
                                          (impl_data p1)) s1
                         in Inr (set_client_pair cp (p1\<lparr>state := R2P2_W_RESPONSE\<rparr>) s2)))))"

definition ack_payload :: "8 word list" where
  "ack_payload = [0x41, 0x43, 0x4B]"

text \<open>
  The end of \<^verbatim>\<open>handle_request\<close>, where its two branches meet: the buffer joins the
  request, and the last packet checks the count and forwards the request to the
  application.
\<close>

definition handle_request_rest ::
  "r2p2_consts \<Rightarrow> buffer \<Rightarrow> int \<Rightarrow> nat \<Rightarrow> r2p2_state \<Rightarrow> error + r2p2_state" where
  "handle_request_rest cfg gb len sp s =
     (let p0 = elem (server_pairs s ! sp);
          p1 = p0\<lparr>srv_request :=
                 r2p2_msg_add_payload (srv_request p0) (gb\<lparr>payload_size := len\<rparr>)\<rparr>;
          s1 = set_server_pair sp p1 s
      in if \<not> is_last cfg (hdr gb) then Inr s1
         else if request_received_packets p1 \<noteq> request_expected_packets p1
         then Inr (free_server_pair cfg sp (remove_from_pending_server_pairs sp s1))
         else (case rfn s1 of
                 None \<Rightarrow> Inl AssertFailed
               | Some f \<Rightarrow>
                   (case prepare_to_app_iovec cfg (srv_request p1) of
                      Inl e \<Rightarrow> Inl e
                    | Inr v \<Rightarrow> Inr (call (Recv_fn sp v) s1))))"

definition handle_request ::
  "r2p2_consts \<Rightarrow> buffer \<Rightarrow> int \<Rightarrow> r2p2_host_tuple \<Rightarrow> r2p2_state \<Rightarrow> error + r2p2_state"
  where
  "handle_request cfg gb len source s =
     (let r2p2h = hdr gb;
          rq = rid r2p2h
      in if is_first cfg r2p2h then
           (case alloc_server_pair s of
              Inl e \<Rightarrow> Inl e
            | Inr (sp, s1) \<Rightarrow>
               (let p = zero_server_pair
                          \<lparr>srv_request := empty_msg\<lparr>sender := source, req_id := rq\<rparr>,
                           request_expected_packets := ucast (p_order r2p2h),
                           request_received_packets := 1\<rparr>;
                    s2 = set_server_pair sp p s1
                in if \<not> is_last cfg r2p2h then
                     (let s3 = add_to_pending_server_pairs sp s2
                      in case r2p2_prepare_msg cfg empty_msg (free_buffers s3) [ack_payload]
                                (ACK_MSG cfg) (FIXED_ROUTE cfg) rq of
                           Inl e \<Rightarrow> Inl e
                         | Inr (ack_msg, n) \<Rightarrow>
                            (let s4 = call (Buf_list_send (buffers ack_msg) source None)
                                        (s3\<lparr>free_buffers := n\<rparr>);
                                 s5 = (if LINUX cfg then free_buffer (hd (buffers ack_msg)) s4
                                       else s4)
                             in handle_request_rest cfg gb len sp s5))
                   else handle_request_rest cfg gb len sp s2))
         else
           (case find_in_pending_server_pairs s rq source of
              None \<Rightarrow> Inl AssertFailed
            | Some sp \<Rightarrow>
               (let p = elem (server_pairs s ! sp);
                    s1 = set_server_pair sp
                           (p\<lparr>request_received_packets := request_received_packets p + 1\<rparr>) s
                in if unat (p_order r2p2h) \<noteq> unat (request_received_packets p)
                   then Inr (free_server_pair cfg sp (remove_from_pending_server_pairs sp s1))
                   else handle_request_rest cfg gb len sp s1)))"

text \<open>
  The front door. \<^verbatim>\<open>len\<close> is an \<^verbatim>\<open>int\<close>, read as \<^verbatim>\<open>unsigned\<close> for the one
  test there is: the assertion on the header size.
\<close>

definition handle_incoming_pck ::
  "r2p2_consts \<Rightarrow> buffer \<Rightarrow> int \<Rightarrow> r2p2_host_tuple \<Rightarrow> r2p2_host_tuple \<Rightarrow> r2p2_state
     \<Rightarrow> error + r2p2_state" where
  "handle_incoming_pck cfg gb len source local_host s =
     (if nat (len mod 2 ^ 32) < HEADER_SIZE cfg then Inl AssertFailed
      else if is_response cfg (hdr gb) then handle_response cfg gb len source local_host s
      else handle_request cfg gb len source s)"

section \<open>Timer and API\<close>

text \<open>
  A handle is the pointer to the pair, here the index of its slot. An index outside the
  pool is an invalid pointer.
\<close>

definition timer_triggered :: "r2p2_consts \<Rightarrow> nat \<Rightarrow> r2p2_state \<Rightarrow> error + r2p2_state" where
  "timer_triggered cfg cp s =
     (if length (client_pairs s) \<le> cp then Inl BadAccess
      else if \<not> taken (client_pairs s ! cp) then Inr s
      else (case timeout_cb (ctx (elem (client_pairs s ! cp))) of
              None \<Rightarrow> Inl AssertFailed
            | Some f \<Rightarrow>
                Inr (free_client_pair cfg cp
                       (remove_from_pending_client_pairs cp
                          (call (Timeout_cb (arg (ctx (elem (client_pairs s ! cp))))) s)))))"

definition r2p2_send_response ::
  "r2p2_consts \<Rightarrow> nat \<Rightarrow> iovec list \<Rightarrow> r2p2_state \<Rightarrow> error + r2p2_state" where
  "r2p2_send_response cfg handle iov s =
     (if length (server_pairs s) \<le> handle then Inl BadAccess
      else
        (let sp = elem (server_pairs s ! handle)
         in case r2p2_prepare_msg cfg (srv_reply sp) (free_buffers s) iov (RESPONSE_MSG cfg)
                   (FIXED_ROUTE cfg) (req_id (srv_request sp)) of
              Inl e \<Rightarrow> Inl e
            | Inr (m, n) \<Rightarrow>
               (let s1 = set_server_pair handle (sp\<lparr>srv_reply := m\<rparr>) (s\<lparr>free_buffers := n\<rparr>);
                    s2 = call (Buf_list_send (buffers m) (sender (srv_request sp)) None) s1;
                    s3 = call Router_notify s2
                in Inr (free_server_pair cfg handle
                          (remove_from_pending_server_pairs handle s3)))))"

text \<open>
  \<^verbatim>\<open>prepare_to_send\<close> is the transport's. Its outcome is an input: it fails, or it
  fills in the transport's fields of the pair, among them the local address that the
  lookup of responses compares. \<^verbatim>\<open>rand()\<close>, cut to the 16 bits of \<^verbatim>\<open>rid\<close>, is an
  input as well.
\<close>

record transport_fields =
  t_impl_data :: "nat option"
  t_on_free :: "nat option"
  t_timer :: "nat option"
  t_local_host :: r2p2_host_tuple

definition r2p2_send_req ::
  "r2p2_consts \<Rightarrow> iovec list \<Rightarrow> r2p2_ctx \<Rightarrow> transport_fields option \<Rightarrow> 16 word \<Rightarrow> r2p2_state
     \<Rightarrow> error + r2p2_state" where
  "r2p2_send_req cfg iov c prepare_to_send rnd s =
     (case alloc_client_pair s of
        Inl e \<Rightarrow> Inl e
      | Inr (cp, s1) \<Rightarrow>
         (let p0 = zero_client_pair\<lparr>ctx := c\<rparr>
          in case prepare_to_send of
               None \<Rightarrow> Inr (free_client_pair cfg cp (set_client_pair cp p0 s1))
             | Some t \<Rightarrow>
                (let p1 = p0\<lparr>impl_data := t_impl_data t, on_free := t_on_free t,
                             timer := t_timer t,
                             request := (request p0)\<lparr>sender := t_local_host t\<rparr>\<rparr>
                 in case r2p2_prepare_msg cfg (request p1) (free_buffers s1) iov
                           (REQUEST_MSG cfg) (routing_policy c) rnd of
                      Inl e \<Rightarrow> Inl e
                    | Inr (m, n) \<Rightarrow>
                       (let p2 = p1\<lparr>request := m,
                                    state := (if length (buffers m) \<le> 1 then R2P2_W_RESPONSE
                                              else R2P2_W_ACK)\<rparr>;
                            s2 = add_to_pending_client_pairs cp
                                   (set_client_pair cp p2 (s1\<lparr>free_buffers := n\<rparr>))
                        in if buffers m = [] then Inl NullDeref
                           else
                             (let s3 = call (Buf_list_send [hd (buffers m)] (destination c)
                                               (impl_data p2)) s2
                              in if LINUX cfg then Inr s3
                                 else Inr (set_client_pair cp
                                             (p2\<lparr>request := m\<lparr>buffers := tl (buffers m)\<rparr>\<rparr>)
                                             s3))))))"

definition r2p2_recv_resp_done :: "r2p2_consts \<Rightarrow> nat \<Rightarrow> r2p2_state \<Rightarrow> error + r2p2_state"
  where
  "r2p2_recv_resp_done cfg handle s =
     (if length (client_pairs s) \<le> handle then Inl BadAccess
      else Inr (free_client_pair cfg handle (remove_from_pending_client_pairs handle s)))"

definition r2p2_set_recv_cb :: "nat option \<Rightarrow> r2p2_state \<Rightarrow> r2p2_state" where
  "r2p2_set_recv_cb fn s = s\<lparr>rfn := fn\<rparr>"

section \<open>Observing a run\<close>

text \<open>
  The events a call adds to the trace, and the callbacks of the application among them.
\<close>

fun is_callback :: "event \<Rightarrow> bool" where
  "is_callback (Success_cb h a v) = True"
| "is_callback (Error_cb a c) = True"
| "is_callback (Timeout_cb a) = True"
| "is_callback (Recv_fn h v) = True"
| "is_callback e = False"

definition new_events :: "r2p2_state \<Rightarrow> r2p2_state \<Rightarrow> event list" where
  "new_events s s' = drop (length (trace s)) (trace s')"

definition callbacks :: "r2p2_state \<Rightarrow> r2p2_state \<Rightarrow> event list" where
  "callbacks s s' = filter is_callback (new_events s s')"

text \<open>The events of \<^verbatim>\<open>free_client_pair\<close> and \<^verbatim>\<open>free_server_pair\<close>.\<close>

definition free_client_events :: "r2p2_consts \<Rightarrow> r2p2_client_pair \<Rightarrow> event list" where
  "free_client_events cfg p =
     map Free_buffer (buffers (reply p)) @
     (if LINUX cfg then map Free_buffer (buffers (request p)) else []) @
     (case on_free p of None \<Rightarrow> [] | Some f \<Rightarrow> [On_free (impl_data p)])"

definition free_server_events :: "r2p2_consts \<Rightarrow> r2p2_server_pair \<Rightarrow> event list" where
  "free_server_events cfg p =
     map Free_buffer (buffers (srv_request p)) @
     (if LINUX cfg then map Free_buffer (buffers (srv_reply p)) else [])"

section \<open>Example values\<close>

text \<open>
  Modelled from the spec: scenario S2 of the spec assumes \<open>MIN_PAYLOAD_SIZE = 256\<close> and
  \<open>PAYLOAD_SIZE = 1400\<close>. The other constants of the absent header are given example
  values: distinct flag bits, distinct message types below 16, a header of eight bytes.
\<close>

definition spec_consts :: r2p2_consts where
  "spec_consts = \<lparr>MAGIC = 0xCC, F_FLAG = 0x80, L_FLAG = 0x40, PAYLOAD_SIZE = 1400,
     MIN_PAYLOAD_SIZE = 256, HEADER_SIZE = 8, REQUEST_MSG = 0, RESPONSE_MSG = 1,
     ACK_MSG = 3, FIXED_ROUTE = 0, LINUX = True\<rparr>"

definition ex_ctx :: r2p2_ctx where
  "ex_ctx = \<lparr>arg = 7, timeout_cb = Some 1,
     destination = \<lparr>ip = 0x0A000001, port = 8000\<rparr>, routing_policy = 0\<rparr>"

definition ex_transport :: transport_fields where
  "ex_transport = \<lparr>t_impl_data = Some 5, t_on_free = None, t_timer = Some 9,
     t_local_host = \<lparr>ip = 0x0A000002, port = 4000\<rparr>\<rparr>"

text \<open>An engine with two slots in each pool, nothing pending, and a receive callback.\<close>

definition ex_state :: r2p2_state where
  "ex_state = \<lparr>client_pairs = [\<lparr>taken = False, elem = zero_client_pair\<rparr>,
                                \<lparr>taken = False, elem = zero_client_pair\<rparr>],
     server_pairs = [\<lparr>taken = False, elem = zero_server_pair\<rparr>,
                     \<lparr>taken = False, elem = zero_server_pair\<rparr>],
     pending_client_pairs = [], pending_server_pairs = [], rfn = Some 2,
     free_buffers = 2000, trace = []\<rparr>"

text \<open>The same engine with one client pair waiting for its response.\<close>

definition ex_waiting :: r2p2_state where
  "ex_waiting = ex_state\<lparr>client_pairs :=
       [\<lparr>taken = True, elem = zero_client_pair\<lparr>ctx := ex_ctx, state := R2P2_W_RESPONSE,
           request := empty_msg\<lparr>sender := \<lparr>ip = 0x0A000002, port = 4000\<rparr>, req_id := 42\<rparr>\<rparr>\<rparr>,
        \<lparr>taken = False, elem = zero_client_pair\<rparr>],
     pending_client_pairs := [0]\<rparr>"

definition ex_client :: r2p2_host_tuple where
  "ex_client = \<lparr>ip = 0x0A000002, port = 4000\<rparr>"

definition ex_server :: r2p2_host_tuple where
  "ex_server = \<lparr>ip = 0x0A000001, port = 8000\<rparr>"

definition ex_bad_magic :: buffer where
  "ex_bad_magic = \<lparr>hdr = \<lparr>magic = 0, header_size = 8, type_policy = 0, flags = 0xC0,
       rid = 42, p_order = 1\<rparr>,
     body = [1, 2, 3, 4], payload_size = 0\<rparr>"

text \<open>A single-packet response for the waiting pair, a stray later packet, and the state
  after the response has been delivered.\<close>

definition ex_response :: buffer where
  "ex_response = \<lparr>hdr = \<lparr>magic = 0xCC, header_size = 8, type_policy = 0x10, flags = 0xC0,
       rid = 42, p_order = 1\<rparr>,
     body = [0x70, 0x6F, 0x6E, 0x67], payload_size = 0\<rparr>"

definition ex_late :: buffer where
  "ex_late = \<lparr>hdr = \<lparr>magic = 0xCC, header_size = 8, type_policy = 0x10, flags = 0,
       rid = 42, p_order = 5\<rparr>,
     body = [0x70, 0x6F, 0x6E, 0x67], payload_size = 0\<rparr>"

definition ex_answered :: r2p2_state where
  "ex_answered = ex_waiting\<lparr>client_pairs :=
       [\<lparr>taken = True, elem = zero_client_pair\<lparr>ctx := ex_ctx, state := R2P2_W_RESPONSE,
           request := empty_msg\<lparr>sender := \<lparr>ip = 0x0A000002, port = 4000\<rparr>, req_id := 42\<rparr>,
           reply := empty_msg\<lparr>buffers := [ex_response\<lparr>payload_size := 12\<rparr>],
                      sender := ex_server\<rparr>,
           reply_expected_packets := 1, reply_received_packets := 1\<rparr>\<rparr>,
        \<lparr>taken = False, elem = zero_client_pair\<rparr>],
     trace := [Success_cb 0 7 [([0x70, 0x6F, 0x6E, 0x67], 4)]]\<rparr>"

text \<open>The one buffer of a message that fits a single packet.\<close>

definition single_buffer ::
  "r2p2_consts \<Rightarrow> 8 word list \<Rightarrow> 8 word \<Rightarrow> 8 word \<Rightarrow> 16 word \<Rightarrow> buffer" where
  "single_buffer cfg v req_type policy rq =
     \<lparr>hdr = \<lparr>magic = MAGIC cfg, header_size = of_nat (HEADER_SIZE cfg),
             type_policy = push_bit 4 req_type OR (0x0F AND policy),
             flags = F_FLAG cfg OR L_FLAG cfg, rid = rq, p_order = 1\<rparr>,
      body = v, payload_size = int (HEADER_SIZE cfg) + int (length v)\<rparr>"

text \<open>A request of two packets from \<open>ex_client\<close>, the ACK that answers the first one,
  and the engine after the first packet.\<close>

definition ex_first :: buffer where
  "ex_first = \<lparr>hdr = \<lparr>magic = 0xCC, header_size = 8, type_policy = 0, flags = 0x80,
       rid = 42, p_order = 2\<rparr>,
     body = [1, 2, 3], payload_size = 0\<rparr>"

definition ex_second :: buffer where
  "ex_second = \<lparr>hdr = \<lparr>magic = 0xCC, header_size = 8, type_policy = 0, flags = 0x40,
       rid = 42, p_order = 1\<rparr>,
     body = [4, 5], payload_size = 0\<rparr>"

definition ex_ack :: buffer where
  "ex_ack = \<lparr>hdr = \<lparr>magic = 0xCC, header_size = 8, type_policy = 0x30, flags = 0xC0,
       rid = 42, p_order = 1\<rparr>,
     body = [0x41, 0x43, 0x4B], payload_size = 11\<rparr>"

definition ex_assembling :: r2p2_state where
  "ex_assembling = ex_state\<lparr>server_pairs :=
       [\<lparr>taken = True, elem = zero_server_pair
           \<lparr>srv_request := \<lparr>buffers = [ex_first\<lparr>payload_size := 11\<rparr>], sender = ex_client,
                req_id = 42\<rparr>,
            request_expected_packets := 2, request_received_packets := 1\<rparr>\<rparr>,
        \<lparr>taken = False, elem = zero_server_pair\<rparr>],
     pending_server_pairs := [0],
     free_buffers := 2000,
     trace := [Buf_list_send [ex_ack] ex_client None, Free_buffer ex_ack]\<rparr>"

section \<open>Facts about the helpers\<close>

lemma alloc_object_free_head: "\<not> taken x \<Longrightarrow> alloc_object (x # mp) = Some 0"
  by (simp add: alloc_object_def upt_conv_Cons del: upt_Suc)

lemma alloc_object_ex_state:
  "alloc_object (client_pairs ex_state) = Some 0" "alloc_object (server_pairs ex_state) = Some 0"
  by (simp_all add: ex_state_def alloc_object_free_head)

lemma fold_free_buffer:
  "fold free_buffer bs s =
     s\<lparr>trace := trace s @ map Free_buffer bs, free_buffers := free_buffers s + length bs\<rparr>"
  by (induction bs arbitrary: s) (simp_all add: free_buffer_def)

lemma free_buffer_chain_eq:
  "free_buffer_chain bs s =
     s\<lparr>trace := trace s @ map Free_buffer bs, free_buffers := free_buffers s + length bs\<rparr>"
  by (simp add: free_buffer_chain_def fold_free_buffer)

lemma callbacks_Free_buffer [simp]: "filter is_callback (map Free_buffer bs) = []"
  by (induction bs) simp_all

lemma free_client_pair_eq:
  "free_client_pair cfg cp s =
     s\<lparr>client_pairs := free_object cp (client_pairs s),
       trace := trace s @ free_client_events cfg (elem (client_pairs s ! cp)),
       free_buffers := free_buffers s + length (buffers (reply (elem (client_pairs s ! cp)))) +
          (if LINUX cfg then length (buffers (request (elem (client_pairs s ! cp)))) else 0)\<rparr>"
  by (simp add: free_client_pair_def free_buffer_chain_eq Let_def call_def free_client_events_def
      split: option.splits)

lemma free_server_pair_eq:
  "free_server_pair cfg sp s =
     s\<lparr>server_pairs := free_object sp (server_pairs s),
       trace := trace s @ free_server_events cfg (elem (server_pairs s ! sp)),
       free_buffers := free_buffers s +
          length (buffers (srv_request (elem (server_pairs s ! sp)))) +
          (if LINUX cfg then length (buffers (srv_reply (elem (server_pairs s ! sp)))) else 0)\<rparr>"
  by (simp add: free_server_pair_def free_buffer_chain_eq Let_def free_server_events_def)

lemma callbacks_free_client_events [simp]:
  "filter is_callback (free_client_events cfg p) = []"
  by (simp add: free_client_events_def split: option.splits)

lemma callbacks_free_server_events [simp]:
  "filter is_callback (free_server_events cfg p) = []"
  by (simp add: free_server_events_def)

lemma taken_free_object: "i < length mp \<Longrightarrow> \<not> taken (free_object i mp ! i)"
  by (simp add: free_object_def)

lemma length_free_object [simp]: "length (free_object i mp) = length mp"
  by (simp add: free_object_def)

lemma set_pair_simps [simp]:
  "trace (set_client_pair cp p s) = trace s"
  "pending_client_pairs (set_client_pair cp p s) = pending_client_pairs s"
  "pending_server_pairs (set_client_pair cp p s) = pending_server_pairs s"
  "server_pairs (set_client_pair cp p s) = server_pairs s"
  "length (client_pairs (set_client_pair cp p s)) = length (client_pairs s)"
  "trace (set_server_pair sp q s) = trace s"
  "pending_client_pairs (set_server_pair sp q s) = pending_client_pairs s"
  "pending_server_pairs (set_server_pair sp q s) = pending_server_pairs s"
  "client_pairs (set_server_pair sp q s) = client_pairs s"
  "rfn (set_server_pair sp q s) = rfn s"
  "length (server_pairs (set_server_pair sp q s)) = length (server_pairs s)"
  by (simp_all add: set_client_pair_def set_server_pair_def)

lemma set_pair_nth [simp]:
  "cp < length (client_pairs s) \<Longrightarrow> elem (client_pairs (set_client_pair cp p s) ! cp) = p"
  "cp < length (client_pairs s) \<Longrightarrow>
     taken (client_pairs (set_client_pair cp p s) ! cp) = taken (client_pairs s ! cp)"
  "sp < length (server_pairs s) \<Longrightarrow> elem (server_pairs (set_server_pair sp q s) ! sp) = q"
  "sp < length (server_pairs s) \<Longrightarrow>
     taken (server_pairs (set_server_pair sp q s) ! sp) = taken (server_pairs s ! sp)"
  by (simp_all add: set_client_pair_def set_server_pair_def)

lemma response_error_facts:
  assumes "cp < length (client_pairs s)"
  shows "trace (response_error cfg cp s) =
           trace s @ Error_cb (arg (ctx (elem (client_pairs s ! cp)))) (- 1) #
             free_client_events cfg (elem (client_pairs s ! cp))"
    and "cp \<notin> set (pending_client_pairs (response_error cfg cp s))"
    and "\<not> taken (client_pairs (response_error cfg cp s) ! cp)"
    and "length (client_pairs (response_error cfg cp s)) = length (client_pairs s)"
  using assms
  by (simp_all add: response_error_def free_client_pair_eq call_def
      remove_from_pending_client_pairs_def remove_from_list_def taken_free_object)

lemma find_client_set_client_pair:
  assumes "request p = request (elem (client_pairs s ! cp))"
  shows "find_in_pending_client_pairs (set_client_pair cp p s) rq h =
         find_in_pending_client_pairs s rq h"
proof -
  have "elem ((client_pairs s)[cp := (client_pairs s ! cp)\<lparr>elem := p\<rparr>] ! fo) = 
        (if fo = cp \<and> cp < length (client_pairs s) then p else elem (client_pairs s ! fo))" for fo
    by (cases "cp < length (client_pairs s)") (auto simp: nth_list_update list_update_beyond)
  then have "request (elem ((client_pairs s)[cp := (client_pairs s ! cp)\<lparr>elem := p\<rparr>] ! fo)) = 
        request (elem (client_pairs s ! fo))" for fo
    using assms by simp
  then show ?thesis
    by (simp add: find_in_pending_client_pairs_def set_client_pair_def Let_def)
qed

lemma find_client_call [simp]:
  "find_in_pending_client_pairs (call e s) rq h = find_in_pending_client_pairs s rq h"
  by (simp add: find_in_pending_client_pairs_def call_def)

lemma call_simps [simp]:
  "trace (call e s) = trace s @ [e]"
  "client_pairs (call e s) = client_pairs s"
  "server_pairs (call e s) = server_pairs s"
  "pending_client_pairs (call e s) = pending_client_pairs s"
  "pending_server_pairs (call e s) = pending_server_pairs s"
  "rfn (call e s) = rfn s"
  "free_buffers (call e s) = free_buffers s"
  by (simp_all add: call_def)

lemma unat_of_nat_32: "n < 2 ^ 32 \<Longrightarrow> unat (of_nat n :: 32 word) = n"
  by (simp add: unat_of_nat)

lemma prepare_msg_single_entry:
  assumes "length v \<le> PAYLOAD_SIZE cfg" and "length v < 2 ^ 32" and "0 < n"
  shows "r2p2_prepare_msg cfg (msg\<lparr>buffers := []\<rparr>) n [v] t p rq =
     Inr (msg\<lparr>buffers := [single_buffer cfg v t p rq], req_id := rq\<rparr>, n - 1)"
  using assms
  by (simp add: r2p2_prepare_msg_def total_payload_def prepare_loop.simps prepare_step_def
      prepare_alloc_def prepare_copy_def Let_def size_t_sub_def unat_of_nat_32
      set_buffer_payload_size_def single_buffer_def min_def)

lemma low_nibble_mask: "(0x0F :: 8 word) = mask 4"
  by (simp add: mask_eq_exp_minus_1)

lemma type_nibble:
  fixes t p :: "8 word"
  assumes "t < 16"
  shows "drop_bit 4 (push_bit 4 t OR (0x0F AND p)) = t"
proof -
  have "t < 2 ^ 4" using assms by simp
  then have "t AND mask 4 = t" by (rule less_mask_eq)
  then have "take_bit 4 t = t" by (simp add: take_bit_eq_mask)
  then have t: "bit t n \<Longrightarrow> n < 4" for n
    by (metis bit_take_bit_iff)
  show ?thesis
    unfolding low_nibble_mask
    by (rule bit_word_eqI) (auto simp: bit_simps dest: t)
qed

lemma policy_nibble:
  fixes t p :: "8 word"
  assumes "p < 16"
  shows "(push_bit 4 t OR (0x0F AND p)) AND 0x0F = p"
proof -
  have "p < 2 ^ 4" using assms by simp
  then have "p AND mask 4 = p" by (rule less_mask_eq)
  then have "take_bit 4 p = p" by (simp add: take_bit_eq_mask)
  then have t: "bit p n \<Longrightarrow> n < 4" for n
    by (metis bit_take_bit_iff)
  show ?thesis
    unfolding low_nibble_mask
    by (rule bit_word_eqI) (auto simp: bit_simps dest: t)
qed

lemma ex_waiting_facts:
  "find_in_pending_client_pairs ex_waiting 42 ex_client = Some 0"
  "0 < length (client_pairs ex_waiting)"
  "state (elem (client_pairs ex_waiting ! 0)) = R2P2_W_RESPONSE"
  "arg (ctx (elem (client_pairs ex_waiting ! 0))) = 7"
  "buffers (reply (elem (client_pairs ex_waiting ! 0))) = []"
  "reply_received_packets (elem (client_pairs ex_waiting ! 0)) = 0"
  "pending_client_pairs ex_waiting = [0]"
  by (simp_all add: ex_waiting_def ex_state_def find_in_pending_client_pairs_def ex_client_def
      zero_client_pair_def empty_msg_def ex_ctx_def)

lemma ex_response_facts:
  "rid (hdr ex_response) = 42" "is_first spec_consts (hdr ex_response)"
  "is_last spec_consts (hdr ex_response)" "p_order (hdr ex_response) = 1"
  "is_response spec_consts (hdr ex_response)"
  "body ex_response = [0x70, 0x6F, 0x6E, 0x67]"
  by (simp_all add: ex_response_def is_first_def is_last_def spec_consts_def is_response_def
      get_msg_type_def)

lemmas ex_eval_defs = handle_incoming_pck_def handle_response_def Let_def is_response_def
  get_msg_type_def is_first_def is_last_def find_in_pending_client_pairs_def
  set_client_pair_def r2p2_msg_add_payload_def prepare_to_app_iovec_def call_def
  ex_waiting_def ex_state_def ex_answered_def zero_client_pair_def empty_msg_def ex_ctx_def
  ex_response_def spec_consts_def ex_client_def ex_server_def

lemma ex_answered_reached:
  "handle_incoming_pck spec_consts ex_response 12 ex_server ex_client ex_waiting = Inr ex_answered"
  by (simp add: ex_eval_defs)

lemma alloc_object_SomeD:
  "alloc_object mp = Some i \<Longrightarrow> i < length mp \<and> \<not> taken (mp ! i)"
  by (auto simp: alloc_object_def find_Some_iff)

lemma empty_msg_buffers [simp]: "empty_msg\<lparr>buffers := []\<rparr> = empty_msg"
  by (simp add: empty_msg_def)

lemma prepare_msg_ack:
  assumes "3 \<le> PAYLOAD_SIZE cfg" and "0 < n"
  shows "r2p2_prepare_msg cfg empty_msg n [ack_payload] t p rq =
     Inr (empty_msg\<lparr>buffers := [single_buffer cfg ack_payload t p rq], req_id := rq\<rparr>, n - 1)"
  using prepare_msg_single_entry [of ack_payload cfg n empty_msg t p rq] assms
  by (simp add: ack_payload_def)

lemma free_buffer_simps [simp]:
  "trace (free_buffer b s) = trace s @ [Free_buffer b]"
  "client_pairs (free_buffer b s) = client_pairs s"
  "server_pairs (free_buffer b s) = server_pairs s"
  "pending_client_pairs (free_buffer b s) = pending_client_pairs s"
  "pending_server_pairs (free_buffer b s) = pending_server_pairs s"
  "rfn (free_buffer b s) = rfn s"
  by (simp_all add: free_buffer_def)

lemma empty_msg_simps [simp]: "buffers empty_msg = []"
  by (simp add: empty_msg_def)

lemma handle_request_first_of_many:
  assumes first: "is_first cfg (hdr gb)" and more: "\<not> is_last cfg (hdr gb)"
    and slot: "alloc_object (server_pairs s) = Some sp"
    and bufs: "0 < free_buffers s"
    and fits: "3 \<le> PAYLOAD_SIZE cfg"
  shows "\<exists>s'. handle_request cfg gb len source s = Inr s' \<and>
      taken (server_pairs s' ! sp) \<and>
      pending_server_pairs s' = sp # pending_server_pairs s \<and>
      new_events s s' =
        Buf_list_send [single_buffer cfg ack_payload (ACK_MSG cfg) (FIXED_ROUTE cfg) (rid (hdr gb))]
          source None #
        (if LINUX cfg
         then [Free_buffer (single_buffer cfg ack_payload (ACK_MSG cfg) (FIXED_ROUTE cfg)
                 (rid (hdr gb)))]
         else []) \<and>
      buffers (srv_request (elem (server_pairs s' ! sp))) = [gb\<lparr>payload_size := len\<rparr>] \<and>
      sender (srv_request (elem (server_pairs s' ! sp))) = source \<and>
      req_id (srv_request (elem (server_pairs s' ! sp))) = rid (hdr gb) \<and>
      request_expected_packets (elem (server_pairs s' ! sp)) = ucast (p_order (hdr gb)) \<and>
      request_received_packets (elem (server_pairs s' ! sp)) = 1"
proof -
  from alloc_object_SomeD [OF slot] have v: "sp < length (server_pairs s)" by simp
  show ?thesis
    using first more slot bufs fits v
    by (simp add: handle_request_def alloc_server_pair_def Let_def prepare_msg_ack
        add_to_pending_server_pairs_def add_to_list_def handle_request_rest_def
        set_server_pair_def r2p2_msg_add_payload_def new_events_def)
qed

lemma ex_first_facts:
  "is_first spec_consts (hdr ex_first)" "\<not> is_last spec_consts (hdr ex_first)"
  "\<not> is_response spec_consts (hdr ex_first)" "rid (hdr ex_first) = 42"
  by (simp_all add: ex_first_def is_first_def is_last_def is_response_def get_msg_type_def
      spec_consts_def)

lemmas ex_request_defs = handle_incoming_pck_def handle_request_def handle_request_rest_def
  Let_def is_response_def get_msg_type_def is_first_def is_last_def
  find_in_pending_server_pairs_def alloc_server_pair_def alloc_object_free_head
  set_server_pair_def r2p2_msg_add_payload_def prepare_to_app_iovec_def call_def
  add_to_pending_server_pairs_def add_to_list_def free_buffer_def
  ex_state_def ex_assembling_def zero_server_pair_def ex_first_def ex_second_def ex_ack_def
  spec_consts_def ex_client_def ex_server_def single_buffer_def ack_payload_def

lemma ex_assembling_reached:
  "handle_incoming_pck spec_consts ex_first 11 ex_client ex_server ex_state = Inr ex_assembling"
proof -
  have "r2p2_prepare_msg spec_consts empty_msg 2000 [ack_payload] 3 0 42 =
     Inr (empty_msg\<lparr>buffers := [single_buffer spec_consts ack_payload 3 0 42], req_id := 42\<rparr>, 1999)"
    using prepare_msg_ack [of spec_consts 2000 3 0 42] by (simp add: spec_consts_def)
  then show ?thesis
    by (simp add: ex_request_defs)
qed

lemma find_server_set_server_pair:
  assumes "sender (srv_request p) = sender (srv_request (elem (server_pairs s ! sp)))"
    and "req_id (srv_request p) = req_id (srv_request (elem (server_pairs s ! sp)))"
  shows "find_in_pending_server_pairs (set_server_pair sp p s) rq h =
         find_in_pending_server_pairs s rq h"
proof -
  have "elem ((server_pairs s)[sp := (server_pairs s ! sp)\<lparr>elem := p\<rparr>] ! fo) = 
        (if fo = sp \<and> sp < length (server_pairs s) then p else elem (server_pairs s ! fo))" for fo
    by (cases "sp < length (server_pairs s)") (auto simp: nth_list_update list_update_beyond)
  then have "sender (srv_request (elem ((server_pairs s)[sp := (server_pairs s ! sp)\<lparr>elem := p\<rparr>] ! fo))) = 
        sender (srv_request (elem (server_pairs s ! fo))) \<and>
     req_id (srv_request (elem ((server_pairs s)[sp := (server_pairs s ! sp)\<lparr>elem := p\<rparr>] ! fo))) = 
        req_id (srv_request (elem (server_pairs s ! fo)))" for fo
    using assms by simp
  then show ?thesis
    by (simp add: find_in_pending_server_pairs_def set_server_pair_def Let_def)
qed

lemma find_server_in_pending:
  "find_in_pending_server_pairs s rq h = Some sp \<Longrightarrow> sp \<in> set (pending_server_pairs s)"
  by (auto simp: find_in_pending_server_pairs_def find_Some_iff)

lemma handle_request_in_order:
  assumes later: "\<not> is_first cfg (hdr gb)"
    and found: "find_in_pending_server_pairs s (rid (hdr gb)) source = Some sp"
    and valid: "sp < length (server_pairs s)"
    and order: "unat (p_order (hdr gb)) = unat (request_received_packets (elem (server_pairs s ! sp)))"
    and complete: "is_last cfg (hdr gb) \<longrightarrow>
        request_received_packets (elem (server_pairs s ! sp)) + 1 =
          request_expected_packets (elem (server_pairs s ! sp)) \<and>
        rfn s \<noteq> None \<and> length (buffers (srv_request (elem (server_pairs s ! sp)))) < 254"
  shows "\<exists>s'. handle_request cfg gb len source s = Inr s' \<and>
      pending_server_pairs s' = pending_server_pairs s \<and>
      sp \<in> set (pending_server_pairs s') \<and>
      taken (server_pairs s' ! sp) = taken (server_pairs s ! sp) \<and>
      callbacks s s' =
        (if is_last cfg (hdr gb)
         then [Recv_fn sp (map (\<lambda>b. (body b, (payload_size b - int (HEADER_SIZE cfg)) mod 2 ^ 64))
                   (buffers (srv_request (elem (server_pairs s ! sp))) @
                    [gb\<lparr>payload_size := len\<rparr>]))]
         else [])"
  using assms find_server_in_pending [OF found]
  by (auto simp: handle_request_def handle_request_rest_def Let_def r2p2_msg_add_payload_def
      prepare_to_app_iovec_def callbacks_def new_events_def split: option.splits)

lemma send_response_removes:
  assumes "r2p2_send_response cfg sp iov s = Inr s'"
  shows "sp \<notin> set (pending_server_pairs s') \<and> \<not> taken (server_pairs s' ! sp)"
  using assms
  by (auto simp: r2p2_send_response_def Let_def free_server_pair_eq
      remove_from_pending_server_pairs_def remove_from_list_def taken_free_object
      split: if_splits sum.splits)

lemma handle_request_single_packet:
  assumes "is_first cfg (hdr gb)" and "is_last cfg (hdr gb)" and "p_order (hdr gb) = 1"
    and "alloc_object (server_pairs s) = Some sp" and "rfn s = Some f"
  shows "\<exists>s'. handle_request cfg gb len source s = Inr s' \<and>
      callbacks s s' = [Recv_fn sp [(body gb, (len - int (HEADER_SIZE cfg)) mod 2 ^ 64)]] \<and>
      taken (server_pairs s' ! sp) \<and>
      pending_server_pairs s' = pending_server_pairs s"
proof -
  from alloc_object_SomeD [OF assms(4)] have v: "sp < length (server_pairs s)" by simp
  show ?thesis
    using assms v
    by (simp add: handle_request_def alloc_server_pair_def Let_def handle_request_rest_def
        set_server_pair_def r2p2_msg_add_payload_def prepare_to_app_iovec_def callbacks_def
        new_events_def)
qed

lemma prepare_to_app_iovec_wraps:
  "prepare_to_app_iovec spec_consts (empty_msg\<lparr>buffers := [ex_bad_magic\<lparr>payload_size := - 1\<rparr>]\<rparr>) =
     Inr [([1, 2, 3, 4], 18446744073709551607)]"
  "prepare_to_app_iovec spec_consts (empty_msg\<lparr>buffers := [ex_bad_magic\<lparr>payload_size := 12\<rparr>]\<rparr>) =
     Inr [([1, 2, 3, 4], 4)]"
  by (simp_all add: prepare_to_app_iovec_def ex_bad_magic_def spec_consts_def)

lemma ex_bad_magic_facts:
  "\<not> is_response spec_consts (hdr ex_bad_magic)" "is_first spec_consts (hdr ex_bad_magic)"
  "is_last spec_consts (hdr ex_bad_magic)" "p_order (hdr ex_bad_magic) = 1"
  "magic (hdr ex_bad_magic) \<noteq> MAGIC spec_consts" "body ex_bad_magic = [1, 2, 3, 4]"
  by (simp_all add: ex_bad_magic_def is_first_def is_last_def is_response_def get_msg_type_def
      spec_consts_def)

lemma ex_second_facts:
  "\<not> is_first spec_consts (hdr ex_second)" "is_last spec_consts (hdr ex_second)"
  "rid (hdr ex_second) = 42" "p_order (hdr ex_second) = 1" "body ex_second = [4, 5]"
  by (simp_all add: ex_second_def is_first_def is_last_def spec_consts_def)

lemma ex_assembling_facts:
  "find_in_pending_server_pairs ex_assembling 42 ex_client = Some 0"
  "0 < length (server_pairs ex_assembling)"
  "request_received_packets (elem (server_pairs ex_assembling ! 0)) = 1"
  "request_expected_packets (elem (server_pairs ex_assembling ! 0)) = 2"
  "rfn ex_assembling = Some 2"
  "buffers (srv_request (elem (server_pairs ex_assembling ! 0))) = [ex_first\<lparr>payload_size := 11\<rparr>]"
  "taken (server_pairs ex_assembling ! 0)"
  by (simp_all add: ex_assembling_def ex_state_def find_in_pending_server_pairs_def
      zero_server_pair_def)

section \<open>The timer\<close>

text \<open>
  C9. \<^verbatim>\<open>timer_triggered\<close> on a valid pair pointer: when the slot is not marked taken
  the call returns the state as it was, with no callback; when the slot is taken (and the
  context has its \<open>timeout_cb\<close>), the call invokes \<open>timeout_cb(arg)\<close> as its only
  callback, the pair is no longer in the pending-client list and its slot is no longer
  taken. A pair that \<^verbatim>\<open>r2p2_recv_resp_done\<close> or the error path of
  \<^verbatim>\<open>handle_response\<close> has freed is in the first case.
\<close>

theorem timer_triggered_only_when_taken:
  assumes "cp < length (client_pairs s)"
  shows "(\<not> taken (client_pairs s ! cp) \<longrightarrow> timer_triggered cfg cp s = Inr s) \<and>
     (taken (client_pairs s ! cp) \<and> timeout_cb (ctx (elem (client_pairs s ! cp))) = Some f \<longrightarrow>
        (\<exists>s'. timer_triggered cfg cp s = Inr s' \<and>
           callbacks s s' = [Timeout_cb (arg (ctx (elem (client_pairs s ! cp))))] \<and>
           cp \<notin> set (pending_client_pairs s') \<and>
           \<not> taken (client_pairs s' ! cp))) \<and>
     (\<forall>s1. r2p2_recv_resp_done cfg cp s = Inr s1 \<longrightarrow> timer_triggered cfg cp s1 = Inr s1) \<and>
     timer_triggered cfg cp (response_error cfg cp s) = Inr (response_error cfg cp s)"
  using assms
  by (auto simp: timer_triggered_def free_client_pair_eq callbacks_def new_events_def call_def
      remove_from_pending_client_pairs_def remove_from_list_def taken_free_object
      r2p2_recv_resp_done_def response_error_def)

theorem timer_triggered_only_when_taken_witness:
  "timer_triggered spec_consts 1 ex_waiting = Inr ex_waiting \<and>
   (\<exists>s'. timer_triggered spec_consts 0 ex_waiting = Inr s' \<and>
      callbacks ex_waiting s' = [Timeout_cb 7] \<and>
      0 \<notin> set (pending_client_pairs s') \<and> \<not> taken (client_pairs s' ! 0))"
proof -
  have l0: "0 < length (client_pairs ex_waiting)" and l1: "1 < length (client_pairs ex_waiting)"
    by (simp_all add: ex_waiting_def ex_state_def)
  have t1: "\<not> taken (client_pairs ex_waiting ! 1)"
    by (simp add: ex_waiting_def ex_state_def)
  have t0: "taken (client_pairs ex_waiting ! 0) \<and>
      timeout_cb (ctx (elem (client_pairs ex_waiting ! 0))) = Some 1"
    by (simp add: ex_waiting_def ex_state_def ex_ctx_def)
  have a0: "arg (ctx (elem (client_pairs ex_waiting ! 0))) = 7"
    by (simp add: ex_waiting_def ex_state_def ex_ctx_def)
  from timer_triggered_only_when_taken [OF l1, where cfg = spec_consts] t1
  have "timer_triggered spec_consts 1 ex_waiting = Inr ex_waiting" by blast
  moreover from timer_triggered_only_when_taken [OF l0, where cfg = spec_consts and f = 1] t0 a0
  have "\<exists>s'. timer_triggered spec_consts 0 ex_waiting = Inr s' \<and>
      callbacks ex_waiting s' = [Timeout_cb 7] \<and>
      0 \<notin> set (pending_client_pairs s') \<and> \<not> taken (client_pairs s' ! 0)"
    by simp
  ultimately show ?thesis by blast
qed

section \<open>The empty payload vector\<close>

lemma prepare_loop_not_NullDeref:
  "prepare_loop cfg iov t p r sg st \<noteq> Inl NullDeref"
proof (induction cfg iov t p r sg st rule: prepare_loop.induct)
  case (1 cfg iov t p r sg st)
  show ?case
  proof (cases "iov_idx st < length iov")
    case True
    note idx = this
    show ?thesis
    proof (cases "prepare_step cfg iov t p r sg st")
      case (Inl e)
      then have "e \<noteq> NullDeref"
        by (auto simp: prepare_step_def prepare_alloc_def prepare_copy_def Let_def
            split: if_splits sum.splits option.splits)
      with Inl idx show ?thesis by (simp add: prepare_loop.simps [of cfg iov t p r sg st])
    next
      case (Inr st')
      with idx "1.IH" [OF idx Inr] show ?thesis
        by (simp add: prepare_loop.simps [of cfg iov t p r sg st])
    qed
  next
    case False
    then show ?thesis by (simp add: prepare_loop.simps [of cfg iov t p r sg st])
  qed
qed

definition has_buffer :: "prep_state \<Rightarrow> bool" where
  "has_buffer st = (gb_p st \<noteq> None \<and> pbuffers st \<noteq> [])"

lemma prepare_step_has_buffer:
  "prepare_step cfg iov t p r sg st = Inr st' \<Longrightarrow> bufferleft st = 0 \<or> has_buffer st \<Longrightarrow> has_buffer st'"
  by (auto simp: prepare_step_def prepare_alloc_def prepare_copy_def Let_def has_buffer_def
      split: if_splits sum.splits option.splits)

lemma prepare_loop_has_buffer:
  "prepare_loop cfg iov t p r sg st = Inr st' \<Longrightarrow>
     (iov_idx st < length iov \<and> bufferleft st = 0) \<or> has_buffer st \<Longrightarrow> has_buffer st'"
proof (induction cfg iov t p r sg st rule: prepare_loop.induct)
  case (1 cfg iov t p r sg st)
  show ?case
  proof (cases "iov_idx st < length iov")
    case True
    with "1.prems"(1) obtain st1 where s1: "prepare_step cfg iov t p r sg st = Inr st1"
      and l1: "prepare_loop cfg iov t p r sg st1 = Inr st'"
      by (auto simp: prepare_loop.simps [of cfg iov t p r sg st] split: sum.splits)
    from prepare_step_has_buffer [OF s1] "1.prems"(2) have "has_buffer st1" by blast
    with "1.IH" [OF True s1 l1] show ?thesis by blast
  next
    case False
    with "1.prems" show ?thesis by (simp add: prepare_loop.simps [of cfg iov t p r sg st])
  qed
qed

text \<open>
  C10. With an empty vector the copy loop does not run and allocates nothing, and
  \<^verbatim>\<open>r2p2_prepare_msg\<close> then passes the null \<^verbatim>\<open>gb\<close> to
  \<^verbatim>\<open>set_buffer_payload_size\<close>; with a non-empty vector it never ends in a null
  dereference. \<^verbatim>\<open>r2p2_send_response\<close> and \<^verbatim>\<open>r2p2_send_req\<close> (once the pair is
  allocated and the transport is ready) hit the same dereference when called with no
  entries, so both need \<open>iovcnt \<ge> 1\<close>.
\<close>

theorem prepare_msg_needs_iov:
  "prepare_loop cfg [] t p r sg st = Inr st \<and>
   r2p2_prepare_msg cfg msg avail [] t p r = Inl NullDeref \<and>
   (iov \<noteq> [] \<longrightarrow> r2p2_prepare_msg cfg msg avail iov t p r \<noteq> Inl NullDeref) \<and>
   (handle < length (server_pairs s) \<longrightarrow> r2p2_send_response cfg handle [] s = Inl NullDeref) \<and>
   (alloc_object (client_pairs s) \<noteq> None \<longrightarrow>
      r2p2_send_req cfg [] c (Some tf) rnd s = Inl NullDeref)"
proof -
  have a: "prepare_loop cfg [] t p r sg st = Inr st" for t p r sg st
    by (simp add: prepare_loop.simps)
  have b: "r2p2_prepare_msg cfg m n [] t p r = Inl NullDeref" for m n t p r
    by (simp add: r2p2_prepare_msg_def a set_buffer_payload_size_def)
  have c: "r2p2_prepare_msg cfg msg avail iov t p r \<noteq> Inl NullDeref" if ne: "iov \<noteq> []"
  proof
    assume nd: "r2p2_prepare_msg cfg msg avail iov t p r = Inl NullDeref"
    let ?st0 = "\<lparr>iov_idx = 0, bufferleft = 0, copied = 0, buffer_cnt = 0,
                 is_first_v = True, gb_p = None, pbuffers = buffers msg, pool = avail\<rparr>"
    let ?sg = "total_payload iov \<le> PAYLOAD_SIZE cfg"
    show False
    proof (cases "prepare_loop cfg iov t p r ?sg ?st0")
      case (Inl e)
      with nd have "e = NullDeref" by (simp add: r2p2_prepare_msg_def Let_def)
      with Inl prepare_loop_not_NullDeref show False by blast
    next
      case (Inr st')
      from ne have "iov_idx ?st0 < length iov \<and> bufferleft ?st0 = 0" by simp
      with prepare_loop_has_buffer [OF Inr] have "has_buffer st'" by blast
      with nd Inr show False
        by (auto simp: r2p2_prepare_msg_def Let_def set_buffer_payload_size_def has_buffer_def
            split: option.splits if_splits)
    qed
  qed
  show ?thesis
    using a b c
    by (auto simp: r2p2_send_response_def r2p2_send_req_def alloc_client_pair_def Let_def
        split: option.splits)
qed

theorem prepare_msg_needs_iov_witness:
  "r2p2_send_response spec_consts 0 [] ex_state = Inl NullDeref \<and>
   r2p2_send_req spec_consts [] ex_ctx (Some ex_transport) 42 ex_state = Inl NullDeref \<and>
   r2p2_prepare_msg spec_consts empty_msg 10 [[1]] 0 0 42 \<noteq> Inl NullDeref"
proof -
  have "0 < length (server_pairs ex_state)" by (simp add: ex_state_def)
  moreover have "alloc_object (client_pairs ex_state) \<noteq> None"
    by (simp add: alloc_object_ex_state)
  moreover have "[[1::8 word]] \<noteq> []" by simp
  ultimately show ?thesis
    using prepare_msg_needs_iov [where s = ex_state and handle = 0 and cfg = spec_consts
        and iov = "[[1]]"]
    by blast
qed

section \<open>Responses out of order\<close>

text \<open>
  C3. A response packet arrives for a pending client pair in state \<open>W_RESPONSE\<close>. If
  the packet is not a first packet and its \<open>p_order\<close> differs from
  \<open>reply_received_packets\<close> as it is before the increment, or if it is a last packet
  and the count of received packets, as it stands after this packet, differs from the
  expected count, then \<^verbatim>\<open>handle_response\<close> returns with \<open>error_cb(arg, -1)\<close> as its
  only callback, the pair is out of the pending-client list, and its slot is free.
\<close>

theorem handle_response_failure:
  assumes found: "find_in_pending_client_pairs s (rid (hdr gb)) local_host = Some cp"
    and valid: "cp < length (client_pairs s)"
    and wresp: "state (elem (client_pairs s ! cp)) = R2P2_W_RESPONSE"
    and bad: "(\<not> is_first cfg (hdr gb) \<and>
                unat (p_order (hdr gb)) \<noteq> unat (reply_received_packets (elem (client_pairs s ! cp))))
            \<or> (is_last cfg (hdr gb) \<and>
                (if is_first cfg (hdr gb) then 1
                 else reply_received_packets (elem (client_pairs s ! cp)) + 1)
                \<noteq> (if is_first cfg (hdr gb) then ucast (p_order (hdr gb))
                    else reply_expected_packets (elem (client_pairs s ! cp))))"
  shows "\<exists>s'. handle_response cfg gb len source local_host s = Inr s' \<and>
           callbacks s s' = [Error_cb (arg (ctx (elem (client_pairs s ! cp)))) (- 1)] \<and>
           cp \<notin> set (pending_client_pairs s') \<and>
           \<not> taken (client_pairs s' ! cp)"
proof (cases "\<not> is_first cfg (hdr gb) \<and>
      unat (p_order (hdr gb)) \<noteq> unat (reply_received_packets (elem (client_pairs s ! cp)))")
  case True
  with found valid wresp show ?thesis
    by (simp add: handle_response_def Let_def response_error_facts r2p2_msg_add_payload_def
        callbacks_def new_events_def)
next
  case False
  with bad have last: "is_last cfg (hdr gb)" by blast
  from False bad found valid wresp show ?thesis
    by (auto simp: handle_response_def Let_def response_error_facts r2p2_msg_add_payload_def
        call_def callbacks_def new_events_def split: option.splits)
qed

theorem handle_response_failure_witness:
  "\<exists>s'. handle_response spec_consts ex_late 12 ex_server ex_client ex_waiting = Inr s' \<and>
      callbacks ex_waiting s' = [Error_cb 7 (- 1)] \<and>
      0 \<notin> set (pending_client_pairs s') \<and> \<not> taken (client_pairs s' ! 0)"
proof -
  have r: "rid (hdr ex_late) = 42" by (simp add: ex_late_def)
  have bad: "(\<not> is_first spec_consts (hdr ex_late) \<and>
                unat (p_order (hdr ex_late)) \<noteq>
                unat (reply_received_packets (elem (client_pairs ex_waiting ! 0))))
            \<or> (is_last spec_consts (hdr ex_late) \<and>
                (if is_first spec_consts (hdr ex_late) then 1
                 else reply_received_packets (elem (client_pairs ex_waiting ! 0)) + 1)
                \<noteq> (if is_first spec_consts (hdr ex_late) then ucast (p_order (hdr ex_late))
                    else reply_expected_packets (elem (client_pairs ex_waiting ! 0))))"
    by (simp add: ex_late_def is_first_def spec_consts_def ex_waiting_facts)
  from handle_response_failure [of ex_waiting ex_late ex_client 0 spec_consts 12 ex_server,
      OF _ ex_waiting_facts(2) ex_waiting_facts(3) bad] ex_waiting_facts(1) r
  show ?thesis by (simp add: ex_waiting_facts)
qed

section \<open>A late duplicate of a response\<close>

lemma handle_response_first_last:
  assumes found: "find_in_pending_client_pairs s (rid (hdr gb)) local_host = Some cp"
    and valid: "cp < length (client_pairs s)"
    and wresp: "state (elem (client_pairs s ! cp)) = R2P2_W_RESPONSE"
    and single: "is_first cfg (hdr gb)" "is_last cfg (hdr gb)" "p_order (hdr gb) = 1"
    and short: "length (buffers (reply (elem (client_pairs s ! cp)))) < 254"
  shows "\<exists>s'. handle_response cfg gb len source local_host s = Inr s' \<and>
     callbacks s s' =
       [Success_cb cp (arg (ctx (elem (client_pairs s ! cp))))
          (map (\<lambda>b. (body b, (payload_size b - int (HEADER_SIZE cfg)) mod 2 ^ 64))
             (buffers (reply (elem (client_pairs s ! cp))) @ [gb\<lparr>payload_size := len\<rparr>]))] \<and>
     find_in_pending_client_pairs s' (rid (hdr gb)) local_host = Some cp \<and>
     cp < length (client_pairs s') \<and>
     state (elem (client_pairs s' ! cp)) = R2P2_W_RESPONSE \<and>
     pending_client_pairs s' = pending_client_pairs s \<and>
     taken (client_pairs s' ! cp) = taken (client_pairs s ! cp) \<and>
     buffers (reply (elem (client_pairs s' ! cp))) =
       buffers (reply (elem (client_pairs s ! cp))) @ [gb\<lparr>payload_size := len\<rparr>]"
  using assms
  by (auto simp: handle_response_def Let_def r2p2_msg_add_payload_def prepare_to_app_iovec_def
      callbacks_def new_events_def find_client_set_client_pair split: option.splits)

text \<open>
  C7, as the code has it. A pair whose \<open>success_cb\<close> has run is still in the
  pending-client list, in state \<open>W_RESPONSE\<close>, until \<^verbatim>\<open>r2p2_recv_resp_done\<close>. A
  response packet that is first and last with \<open>p_order = 1\<close> is therefore handled
  like any other: it is appended to the reply and \<open>success_cb\<close> is invoked with the
  whole chain, and the pair is left pending in \<open>W_RESPONSE\<close>, so the same holds for the
  next duplicate. Each entry of the vector has the length that \<^verbatim>\<open>prepare_to_app_iovec\<close>
  computes in \<^verbatim>\<open>size_t\<close> from the stored payload size.
\<close>

theorem duplicate_response_reprocessed:
  assumes "find_in_pending_client_pairs s (rid (hdr gb)) local_host = Some cp"
    and "cp < length (client_pairs s)"
    and "state (elem (client_pairs s ! cp)) = R2P2_W_RESPONSE"
    and "is_first cfg (hdr gb)" "is_last cfg (hdr gb)" "p_order (hdr gb) = 1"
    and "length (buffers (reply (elem (client_pairs s ! cp)))) < 254"
  shows "\<exists>s'. handle_response cfg gb len source local_host s = Inr s' \<and>
     callbacks s s' =
       [Success_cb cp (arg (ctx (elem (client_pairs s ! cp))))
          (map (\<lambda>b. (body b, (payload_size b - int (HEADER_SIZE cfg)) mod 2 ^ 64))
             (buffers (reply (elem (client_pairs s ! cp))) @ [gb\<lparr>payload_size := len\<rparr>]))] \<and>
     find_in_pending_client_pairs s' (rid (hdr gb)) local_host = Some cp \<and>
     cp < length (client_pairs s') \<and>
     state (elem (client_pairs s' ! cp)) = R2P2_W_RESPONSE \<and>
     pending_client_pairs s' = pending_client_pairs s \<and>
     taken (client_pairs s' ! cp) = taken (client_pairs s ! cp) \<and>
     buffers (reply (elem (client_pairs s' ! cp))) =
       buffers (reply (elem (client_pairs s ! cp))) @ [gb\<lparr>payload_size := len\<rparr>]"
  using assms by (rule handle_response_first_last)

theorem duplicate_response_reprocessed_witness:
  "\<exists>s'. handle_response spec_consts ex_response 12 ex_server ex_client ex_answered = Inr s' \<and>
     callbacks ex_answered s' =
       [Success_cb 0 7 [([0x70, 0x6F, 0x6E, 0x67], 4), ([0x70, 0x6F, 0x6E, 0x67], 4)]] \<and>
     pending_client_pairs s' = [0]"
proof -
  have f: "find_in_pending_client_pairs ex_answered (rid (hdr ex_response)) ex_client = Some 0"
    and v: "0 < length (client_pairs ex_answered)"
    and w: "state (elem (client_pairs ex_answered ! 0)) = R2P2_W_RESPONSE"
    and l: "length (buffers (reply (elem (client_pairs ex_answered ! 0)))) < 254"
    by (simp_all add: ex_eval_defs)
  from duplicate_response_reprocessed [OF f v w ex_response_facts(2,3,4) l,
      where len = 12 and source = ex_server]
  show ?thesis by (simp add: ex_eval_defs)
qed

text \<open>
  C7 as stated fails: after the response of \<open>ex_waiting\<close> has been delivered and
  before \<^verbatim>\<open>r2p2_recv_resp_done\<close>, the same packet again makes the engine call
  \<open>success_cb\<close> a second time, with a reply of two buffers.
\<close>

theorem duplicate_response_counterexample:
  "handle_incoming_pck spec_consts ex_response 12 ex_server ex_client ex_waiting = Inr ex_answered \<and>
   callbacks ex_waiting ex_answered = [Success_cb 0 7 [([0x70, 0x6F, 0x6E, 0x67], 4)]] \<and>
   0 \<in> set (pending_client_pairs ex_answered) \<and>
   \<not> isl (handle_incoming_pck spec_consts ex_response 12 ex_server ex_client ex_answered) \<and>
   callbacks ex_answered
     (projr (handle_incoming_pck spec_consts ex_response 12 ex_server ex_client ex_answered)) =
     [Success_cb 0 7 [([0x70, 0x6F, 0x6E, 0x67], 4), ([0x70, 0x6F, 0x6E, 0x67], 4)]]"
  by (simp add: ex_eval_defs callbacks_def new_events_def)

section \<open>The first packet of a long request\<close>

text \<open>
  C4. \<^verbatim>\<open>handle_request\<close> on a packet with \<open>F_FLAG\<close> and without \<open>L_FLAG\<close>, with
  a free slot in the server pool, a buffer for the ACK, a payload size of at least three
  bytes, and type and policy constants that fit their nibbles: the slot that was free is
  taken, it is put at the head of the pending-server list, and the first thing the engine
  does to the outside is to send one buffer to the source of the packet, with no transport
  handle. That buffer carries the three bytes \<open>ACK\<close>, type \<open>ACK_MSG\<close>, policy
  \<open>FIXED_ROUTE\<close>, the request id of the packet, both flags and \<open>p_order = 1\<close>.
\<close>

theorem handle_request_sends_ack:
  assumes "is_first cfg (hdr gb)" and "\<not> is_last cfg (hdr gb)"
    and "alloc_object (server_pairs s) = Some sp"
    and "0 < free_buffers s"
    and "3 \<le> PAYLOAD_SIZE cfg"
    and "ACK_MSG cfg < 16" and "FIXED_ROUTE cfg < 16"
  shows "\<exists>s' ack. handle_request cfg gb len source s = Inr s' \<and>
      \<not> taken (server_pairs s ! sp) \<and> taken (server_pairs s' ! sp) \<and>
      pending_server_pairs s' = sp # pending_server_pairs s \<and>
      new_events s s' =
        Buf_list_send [ack] source None # (if LINUX cfg then [Free_buffer ack] else []) \<and>
      body ack = ack_payload \<and>
      payload_size ack = int (HEADER_SIZE cfg) + 3 \<and>
      get_msg_type (hdr ack) = ACK_MSG cfg \<and>
      get_policy (hdr ack) = FIXED_ROUTE cfg \<and>
      rid (hdr ack) = rid (hdr gb) \<and>
      magic (hdr ack) = MAGIC cfg \<and>
      flags (hdr ack) = F_FLAG cfg OR L_FLAG cfg \<and>
      p_order (hdr ack) = 1"
proof -
  let ?ack = "single_buffer cfg ack_payload (ACK_MSG cfg) (FIXED_ROUTE cfg) (rid (hdr gb))"
  from handle_request_first_of_many [OF assms(1-5), of len source]
  obtain s' where r: "handle_request cfg gb len source s = Inr s'"
    and t: "taken (server_pairs s' ! sp)"
    and p: "pending_server_pairs s' = sp # pending_server_pairs s"
    and e: "new_events s s' =
        Buf_list_send [?ack] source None # (if LINUX cfg then [Free_buffer ?ack] else [])"
    by blast
  have h: "body ?ack = ack_payload" "payload_size ?ack = int (HEADER_SIZE cfg) + 3"
    "rid (hdr ?ack) = rid (hdr gb)" "magic (hdr ?ack) = MAGIC cfg"
    "flags (hdr ?ack) = F_FLAG cfg OR L_FLAG cfg" "p_order (hdr ?ack) = 1"
    by (simp_all add: single_buffer_def ack_payload_def)
  have ty: "get_msg_type (hdr ?ack) = ACK_MSG cfg"
    using type_nibble [OF assms(6)] by (simp add: single_buffer_def get_msg_type_def)
  have po: "get_policy (hdr ?ack) = FIXED_ROUTE cfg"
    using policy_nibble [OF assms(7)] by (simp add: single_buffer_def get_policy_def)
  from alloc_object_SomeD [OF assms(3)] have "\<not> taken (server_pairs s ! sp)" by simp
  with r t p e h ty po show ?thesis by blast
qed

theorem handle_request_sends_ack_witness:
  "\<exists>s' ack. handle_request spec_consts ex_first 11 ex_client ex_state = Inr s' \<and>
      taken (server_pairs s' ! 0) \<and> pending_server_pairs s' = [0] \<and>
      new_events ex_state s' = [Buf_list_send [ack] ex_client None, Free_buffer ack] \<and>
      body ack = [0x41, 0x43, 0x4B] \<and> get_msg_type (hdr ack) = 3 \<and> rid (hdr ack) = 42"
proof -
  have c: "0 < free_buffers ex_state" "3 \<le> PAYLOAD_SIZE spec_consts"
    "ACK_MSG spec_consts < 16" "FIXED_ROUTE spec_consts < 16"
    by (simp_all add: ex_state_def spec_consts_def)
  from handle_request_sends_ack [OF ex_first_facts(1,2) alloc_object_ex_state(2) c,
      of 11 ex_client]
  obtain s' ack where "handle_request spec_consts ex_first 11 ex_client ex_state = Inr s'"
    "taken (server_pairs s' ! 0)" "pending_server_pairs s' = [0]"
    "new_events ex_state s' = [Buf_list_send [ack] ex_client None, Free_buffer ack]"
    "body ack = [0x41, 0x43, 0x4B]" "get_msg_type (hdr ack) = 3" "rid (hdr ack) = 42"
    by (auto simp: ex_state_def spec_consts_def ack_payload_def ex_first_def)
  then show ?thesis by blast
qed

section \<open>How long a server pair stays pending\<close>

text \<open>
  C5, as the code has it. The first packet of a multi-packet request puts the new pair in
  the pending-server list. Every later packet that arrives in order leaves it there, also
  the last one, which delivers the request to the receive callback: the pair is then
  still in the list and still allocated. \<^verbatim>\<open>r2p2_send_response\<close> is what takes the
  pair out of the list, and it frees it at once. Each entry of the delivered vector has
  the length that \<^verbatim>\<open>prepare_to_app_iovec\<close> computes in \<^verbatim>\<open>size_t\<close> from the stored
  payload size.
\<close>

theorem server_pair_pending_until_response:
  "(is_first cfg (hdr gb) \<and> \<not> is_last cfg (hdr gb) \<and>
    alloc_object (server_pairs s) = Some sp \<and> 0 < free_buffers s \<and> 3 \<le> PAYLOAD_SIZE cfg \<longrightarrow>
      (\<exists>s'. handle_request cfg gb len source s = Inr s' \<and>
         sp \<in> set (pending_server_pairs s') \<and> taken (server_pairs s' ! sp))) \<and>
   (\<not> is_first cfg (hdr gb) \<and>
    find_in_pending_server_pairs s (rid (hdr gb)) source = Some sp \<and>
    sp < length (server_pairs s) \<and>
    unat (p_order (hdr gb)) = unat (request_received_packets (elem (server_pairs s ! sp))) \<and>
    (is_last cfg (hdr gb) \<longrightarrow>
       request_received_packets (elem (server_pairs s ! sp)) + 1 =
         request_expected_packets (elem (server_pairs s ! sp)) \<and>
       rfn s \<noteq> None \<and> length (buffers (srv_request (elem (server_pairs s ! sp)))) < 254) \<longrightarrow>
      (\<exists>s'. handle_request cfg gb len source s = Inr s' \<and>
         sp \<in> set (pending_server_pairs s') \<and>
         taken (server_pairs s' ! sp) = taken (server_pairs s ! sp) \<and>
         callbacks s s' =
           (if is_last cfg (hdr gb)
            then [Recv_fn sp (map (\<lambda>b. (body b, (payload_size b - int (HEADER_SIZE cfg)) mod 2 ^ 64))
                      (buffers (srv_request (elem (server_pairs s ! sp))) @
                       [gb\<lparr>payload_size := len\<rparr>]))]
            else []))) \<and>
   (\<forall>s'. r2p2_send_response cfg sp iov s = Inr s' \<longrightarrow>
      sp \<notin> set (pending_server_pairs s') \<and> \<not> taken (server_pairs s' ! sp))"
proof (intro conjI impI allI)
  assume a: "is_first cfg (hdr gb) \<and> \<not> is_last cfg (hdr gb) \<and>
    alloc_object (server_pairs s) = Some sp \<and> 0 < free_buffers s \<and> 3 \<le> PAYLOAD_SIZE cfg"
  then have "is_first cfg (hdr gb)" "\<not> is_last cfg (hdr gb)"
    "alloc_object (server_pairs s) = Some sp" "0 < free_buffers s" "3 \<le> PAYLOAD_SIZE cfg"
    by simp_all
  from handle_request_first_of_many [OF this, of len source]
  show "\<exists>s'. handle_request cfg gb len source s = Inr s' \<and>
         sp \<in> set (pending_server_pairs s') \<and> taken (server_pairs s' ! sp)"
    by auto
next
  assume b: "\<not> is_first cfg (hdr gb) \<and>
    find_in_pending_server_pairs s (rid (hdr gb)) source = Some sp \<and>
    sp < length (server_pairs s) \<and>
    unat (p_order (hdr gb)) = unat (request_received_packets (elem (server_pairs s ! sp))) \<and>
    (is_last cfg (hdr gb) \<longrightarrow>
       request_received_packets (elem (server_pairs s ! sp)) + 1 =
         request_expected_packets (elem (server_pairs s ! sp)) \<and>
       rfn s \<noteq> None \<and> length (buffers (srv_request (elem (server_pairs s ! sp)))) < 254)"
  then have "\<not> is_first cfg (hdr gb)"
    "find_in_pending_server_pairs s (rid (hdr gb)) source = Some sp"
    "sp < length (server_pairs s)"
    "unat (p_order (hdr gb)) = unat (request_received_packets (elem (server_pairs s ! sp)))"
    "is_last cfg (hdr gb) \<longrightarrow>
       request_received_packets (elem (server_pairs s ! sp)) + 1 =
         request_expected_packets (elem (server_pairs s ! sp)) \<and>
       rfn s \<noteq> None \<and> length (buffers (srv_request (elem (server_pairs s ! sp)))) < 254"
    by simp_all
  from handle_request_in_order [OF this, of len]
  show "\<exists>s'. handle_request cfg gb len source s = Inr s' \<and>
         sp \<in> set (pending_server_pairs s') \<and>
         taken (server_pairs s' ! sp) = taken (server_pairs s ! sp) \<and>
         callbacks s s' =
           (if is_last cfg (hdr gb)
            then [Recv_fn sp (map (\<lambda>b. (body b, (payload_size b - int (HEADER_SIZE cfg)) mod 2 ^ 64))
                      (buffers (srv_request (elem (server_pairs s ! sp))) @
                       [gb\<lparr>payload_size := len\<rparr>]))]
            else [])"
    by blast
next
  fix s' assume "r2p2_send_response cfg sp iov s = Inr s'"
  from send_response_removes [OF this]
  show "sp \<notin> set (pending_server_pairs s')" "\<not> taken (server_pairs s' ! sp)" by simp_all
qed

theorem server_pair_pending_until_response_witness:
  "\<exists>s'. handle_request spec_consts ex_second 10 ex_client ex_assembling = Inr s' \<and>
      0 \<in> set (pending_server_pairs s') \<and> taken (server_pairs s' ! 0) \<and>
      callbacks ex_assembling s' = [Recv_fn 0 [([1, 2, 3], 3), ([4, 5], 2)]]"
proof -
  have h: "\<not> is_first spec_consts (hdr ex_second) \<and>
    find_in_pending_server_pairs ex_assembling (rid (hdr ex_second)) ex_client = Some 0 \<and>
    0 < length (server_pairs ex_assembling) \<and>
    unat (p_order (hdr ex_second)) =
      unat (request_received_packets (elem (server_pairs ex_assembling ! 0))) \<and>
    (is_last spec_consts (hdr ex_second) \<longrightarrow>
       request_received_packets (elem (server_pairs ex_assembling ! 0)) + 1 =
         request_expected_packets (elem (server_pairs ex_assembling ! 0)) \<and>
       rfn ex_assembling \<noteq> None \<and>
       length (buffers (srv_request (elem (server_pairs ex_assembling ! 0)))) < 254)"
    using ex_assembling_facts(2) by (simp add: ex_second_facts ex_assembling_facts)
  from server_pair_pending_until_response [of spec_consts ex_second ex_assembling 0 10 ex_client]
    h
  have "\<exists>s'. handle_request spec_consts ex_second 10 ex_client ex_assembling = Inr s' \<and>
      0 \<in> set (pending_server_pairs s') \<and>
      taken (server_pairs s' ! 0) = taken (server_pairs ex_assembling ! 0) \<and>
      callbacks ex_assembling s' =
        (if is_last spec_consts (hdr ex_second)
         then [Recv_fn 0 (map (\<lambda>b. (body b, (payload_size b - int (HEADER_SIZE spec_consts)) mod 2 ^ 64))
                   (buffers (srv_request (elem (server_pairs ex_assembling ! 0))) @
                    [ex_second\<lparr>payload_size := 10\<rparr>]))]
         else [])"
    by blast
  then show ?thesis
    by (simp add: ex_second_facts ex_assembling_facts) (simp add: ex_first_def spec_consts_def)
qed

text \<open>
  C5 as stated fails: after the second and last packet of the request of \<open>ex_client\<close>
  the receive callback has been called with the five bytes, and the pair is still in the
  pending-server list.
\<close>

theorem delivered_pair_still_pending_counterexample:
  "handle_incoming_pck spec_consts ex_first 11 ex_client ex_server ex_state = Inr ex_assembling \<and>
   \<not> isl (handle_incoming_pck spec_consts ex_second 10 ex_client ex_server ex_assembling) \<and>
   callbacks ex_assembling
     (projr (handle_incoming_pck spec_consts ex_second 10 ex_client ex_server ex_assembling)) =
     [Recv_fn 0 [([1, 2, 3], 3), ([4, 5], 2)]] \<and>
   0 \<in> set (pending_server_pairs
     (projr (handle_incoming_pck spec_consts ex_second 10 ex_client ex_server ex_assembling)))"
  using ex_assembling_reached
  by (simp add: ex_request_defs callbacks_def new_events_def)

section \<open>Short packets and the magic byte\<close>

text \<open>
  C6, as the code has it. A packet whose length, read as unsigned, is below the header
  size stops the engine at its assertion: there is no state to return and no callback.
  The magic byte is never compared: whatever it is, a single-packet request of at least
  the header size gets a server pair and is delivered to the receive callback, with the
  entry length \<^verbatim>\<open>len - sizeof(struct r2p2_header)\<close> computed in \<^verbatim>\<open>size_t\<close>. A
  negative \<^verbatim>\<open>len\<close> is large when read as unsigned, so it passes the assertion and its
  entry length wraps around.
\<close>

theorem malformed_packet_handling:
  "(nat (len mod 2 ^ 32) < HEADER_SIZE cfg \<longrightarrow>
      handle_incoming_pck cfg gb len source local_host s = Inl AssertFailed) \<and>
   (HEADER_SIZE cfg \<le> nat (len mod 2 ^ 32) \<and> \<not> is_response cfg (hdr gb) \<and>
    is_first cfg (hdr gb) \<and> is_last cfg (hdr gb) \<and> p_order (hdr gb) = 1 \<and>
    alloc_object (server_pairs s) = Some sp \<and> rfn s = Some f \<longrightarrow>
      (\<exists>s'. handle_incoming_pck cfg gb len source local_host s = Inr s' \<and>
         callbacks s s' = [Recv_fn sp [(body gb, (len - int (HEADER_SIZE cfg)) mod 2 ^ 64)]] \<and>
         taken (server_pairs s' ! sp)))"
  using handle_request_single_packet [of cfg gb s sp f len source]
  by (auto simp: handle_incoming_pck_def)

theorem malformed_packet_handling_witness:
  "handle_incoming_pck spec_consts ex_bad_magic 4 ex_client ex_server ex_state = Inl AssertFailed \<and>
   (\<exists>s'. handle_incoming_pck spec_consts ex_bad_magic 12 ex_client ex_server ex_state = Inr s' \<and>
      callbacks ex_state s' = [Recv_fn 0 [([1, 2, 3, 4], 4)]] \<and> taken (server_pairs s' ! 0)) \<and>
   (\<exists>s'. handle_incoming_pck spec_consts ex_bad_magic (- 1) ex_client ex_server ex_state = Inr s' \<and>
      callbacks ex_state s' = [Recv_fn 0 [([1, 2, 3, 4], 18446744073709551607)]] \<and>
      taken (server_pairs s' ! 0))"
proof -
  have a: "nat (4 mod 2 ^ 32) < HEADER_SIZE spec_consts"
    and b: "HEADER_SIZE spec_consts \<le> nat (12 mod 2 ^ 32)"
    and b': "HEADER_SIZE spec_consts \<le> nat (- 1 mod 2 ^ 32)"
    and c: "rfn ex_state = Some 2"
    and d: "int (HEADER_SIZE spec_consts) = 8"
    by (simp_all add: spec_consts_def ex_state_def)
  from malformed_packet_handling [of 4 spec_consts ex_bad_magic ex_client ex_server ex_state] a
  have "handle_incoming_pck spec_consts ex_bad_magic 4 ex_client ex_server ex_state =
      Inl AssertFailed"
    by blast
  moreover
  from malformed_packet_handling [of 12 spec_consts ex_bad_magic ex_client ex_server ex_state 0 2]
    b c ex_bad_magic_facts alloc_object_ex_state(2)
  have "\<exists>s'. handle_incoming_pck spec_consts ex_bad_magic 12 ex_client ex_server ex_state = Inr s' \<and>
      callbacks ex_state s' =
        [Recv_fn 0 [(body ex_bad_magic, (12 - int (HEADER_SIZE spec_consts)) mod 2 ^ 64)]] \<and>
      taken (server_pairs s' ! 0)"
    by blast
  moreover
  from malformed_packet_handling [of "- 1" spec_consts ex_bad_magic ex_client ex_server ex_state
      0 2]
    b' c ex_bad_magic_facts alloc_object_ex_state(2)
  have "\<exists>s'. handle_incoming_pck spec_consts ex_bad_magic (- 1) ex_client ex_server ex_state =
        Inr s' \<and>
      callbacks ex_state s' =
        [Recv_fn 0 [(body ex_bad_magic, (- 1 - int (HEADER_SIZE spec_consts)) mod 2 ^ 64)]] \<and>
      taken (server_pairs s' ! 0)"
    by blast
  ultimately show ?thesis by (simp add: d ex_bad_magic_facts)
qed

text \<open>
  C6 as stated fails on both counts: the short packet does not return normally, and the
  packet with a foreign magic byte changes the server pool and reaches the application.
\<close>

theorem malformed_packet_counterexample:
  "magic (hdr ex_bad_magic) \<noteq> MAGIC spec_consts \<and>
   handle_incoming_pck spec_consts ex_bad_magic 4 ex_client ex_server ex_state = Inl AssertFailed \<and>
   \<not> isl (handle_incoming_pck spec_consts ex_bad_magic 12 ex_client ex_server ex_state) \<and>
   callbacks ex_state
     (projr (handle_incoming_pck spec_consts ex_bad_magic 12 ex_client ex_server ex_state)) =
     [Recv_fn 0 [([1, 2, 3, 4], 4)]] \<and>
   taken (server_pairs
     (projr (handle_incoming_pck spec_consts ex_bad_magic 12 ex_client ex_server ex_state)) ! 0)"
  by (simp add: ex_request_defs callbacks_def new_events_def ex_bad_magic_def)

section \<open>Invariants of the copy loop\<close>

text \<open>
  The loop is analysed for a message that starts empty, with every entry shorter than
  \<open>2 ^ 32\<close> bytes, so that \<open>copied\<close> does not wrap. \<open>shape_inv\<close> ties the local
  variables to the chain; \<open>hdr_inv\<close> describes the headers written so far; \<open>fill_inv\<close>
  says which bytes are in which buffer and what size each closed buffer was given.
\<close>

definition shape_inv :: "iovec list \<Rightarrow> prep_state \<Rightarrow> bool" where
  "shape_inv iov st \<longleftrightarrow>
     iov_idx st \<le> length iov \<and>
     (copied st = 0 \<or>
        iov_idx st < length iov \<and> unat (copied st) < length (iov ! iov_idx st)) \<and>
     gb_p st = (if pbuffers st = [] then None else Some (length (pbuffers st) - 1)) \<and>
     buffer_cnt st = of_nat (length (pbuffers st)) \<and>
     (pbuffers st = [] \<longrightarrow> bufferleft st = 0 \<and> is_first_v st) \<and>
     (pbuffers st \<noteq> [] \<longrightarrow> (is_first_v st \<longleftrightarrow> length (pbuffers st) = 1))"

lemma unat_add_of_nat_32:
  "unat (c :: 32 word) + k < 2 ^ 32 \<Longrightarrow> unat (c + of_nat k) = unat c + k"
  by (simp add: unat_word_ariths unat_of_nat)

lemma size_t_sub_le: "b \<le> a \<Longrightarrow> size_t_sub a b = a - b"
  by (simp add: size_t_sub_def)

lemma prepare_alloc_shape:
  assumes "prepare_alloc cfg t p r sg st = Inr st'" and "shape_inv iov st"
  shows "shape_inv iov st' \<and> pbuffers st' \<noteq> []"
  using assms
  by (auto simp: prepare_alloc_def shape_inv_def Let_def split: if_splits option.splits)

lemma prepare_copy_eq:
  assumes g: "gb_p st = Some i"
    and c: "unat (copied st) \<le> length (iov ! iov_idx st)"
    and len: "length (iov ! iov_idx st) < 2 ^ 32"
  shows "\<exists>k w. k \<le> bufferleft st \<and> unat (copied st) + k \<le> length (iov ! iov_idx st) \<and>
     (k = bufferleft st \<or> unat (copied st) + k = length (iov ! iov_idx st)) \<and>
     unat w = unat (copied st) + k \<and>
     prepare_copy iov st =
       Inr (st\<lparr>pbuffers := (pbuffers st)[i := (pbuffers st ! i)\<lparr>body := body (pbuffers st ! i) @
                 take k (drop (unat (copied st)) (iov ! iov_idx st))\<rparr>],
              bufferleft := bufferleft st - k,
              copied := (if unat (copied st) + k = length (iov ! iov_idx st) then 0 else w),
              iov_idx := (if unat (copied st) + k = length (iov ! iov_idx st)
                          then iov_idx st + 1 else iov_idx st)\<rparr>)"
proof -
  let ?src = "iov ! iov_idx st"
  let ?c = "unat (copied st)"
  define k where "k = min (bufferleft st) (length ?src - ?c)"
  define w where "w = copied st + of_nat k"
  have k: "min (bufferleft st) (size_t_sub (length ?src) ?c) = k"
    using c by (simp add: size_t_sub_le k_def)
  have ck: "?c + k \<le> length ?src" and kb: "k \<le> bufferleft st"
    and kk: "k = bufferleft st \<or> ?c + k = length ?src"
    using c by (auto simp: k_def min_def)
  have u: "unat w = ?c + k"
    unfolding w_def using ck len by (intro unat_add_of_nat_32) simp
  have "prepare_copy iov st =
       Inr (st\<lparr>pbuffers := (pbuffers st)[i := (pbuffers st ! i)\<lparr>body := body (pbuffers st ! i) @
                 take k (drop ?c ?src)\<rparr>],
              bufferleft := bufferleft st - k,
              copied := (if ?c + k = length ?src then 0 else w),
              iov_idx := (if ?c + k = length ?src then iov_idx st + 1 else iov_idx st)\<rparr>)"
    unfolding prepare_copy_def Let_def k w_def [symmetric] u using g ck by simp
  with ck kb kk u show ?thesis by blast
qed

lemma shape_copied_le:
  "shape_inv iov st \<Longrightarrow> unat (copied st) \<le> length (iov ! iov_idx st)"
  by (auto simp: shape_inv_def)

lemma prepare_copy_shape:
  assumes "prepare_copy iov st = Inr st'" and "shape_inv iov st" and "pbuffers st \<noteq> []"
    and "iov_idx st < length iov" and "\<forall>v \<in> set iov. length v < 2 ^ 32"
  shows "shape_inv iov st' \<and> pbuffers st' \<noteq> []"
proof -
  let ?src = "iov ! iov_idx st"
  let ?c = "unat (copied st)"
  from assms(4,5) have len: "length ?src < 2 ^ 32" by simp
  from assms(2,3) have g: "gb_p st = Some (length (pbuffers st) - 1)"
    by (simp add: shape_inv_def)
  from prepare_copy_eq [OF g shape_copied_le [OF assms(2)] len] assms(1)
  obtain k w where ck: "?c + k \<le> length ?src" and u: "unat w = ?c + k"
    and st': "st' = st\<lparr>pbuffers := (pbuffers st)[length (pbuffers st) - 1 :=
                 (pbuffers st ! (length (pbuffers st) - 1))\<lparr>body :=
                    body (pbuffers st ! (length (pbuffers st) - 1)) @ take k (drop ?c ?src)\<rparr>],
              bufferleft := bufferleft st - k,
              copied := (if ?c + k = length ?src then 0 else w),
              iov_idx := (if ?c + k = length ?src then iov_idx st + 1 else iov_idx st)\<rparr>"
    by auto
  from assms(2,3,4) ck show ?thesis
    unfolding st' by (auto simp: shape_inv_def u)
qed

lemma prepare_step_shape:
  assumes "prepare_step cfg iov t p r sg st = Inr st'" and "shape_inv iov st"
    and "iov_idx st < length iov" and "\<forall>v \<in> set iov. length v < 2 ^ 32"
  shows "shape_inv iov st' \<and> pbuffers st' \<noteq> []"
proof (cases "bufferleft st = 0")
  case True
  with assms(1) obtain st1 where a: "prepare_alloc cfg t p r sg st = Inr st1"
    and c: "prepare_copy iov st1 = Inr st'"
    by (auto simp: prepare_step_def split: sum.splits)
  from prepare_alloc_shape [OF a assms(2)] have s1: "shape_inv iov st1" "pbuffers st1 \<noteq> []"
    by simp_all
  from prepare_alloc_pool [OF a] assms(3) have "iov_idx st1 < length iov" by simp
  from prepare_copy_shape [OF c s1 this assms(4)] show ?thesis .
next
  case False
  with assms(1) have c: "prepare_copy iov st = Inr st'" by (simp add: prepare_step_def)
  from False assms(2) have ne: "pbuffers st \<noteq> []" by (auto simp: shape_inv_def)
  from prepare_copy_shape [OF c assms(2) ne assms(3,4)] show ?thesis .
qed

definition new_header :: "r2p2_consts \<Rightarrow> 8 word \<Rightarrow> 8 word \<Rightarrow> 16 word \<Rightarrow> 8 word \<Rightarrow> r2p2_header"
  where
  "new_header cfg req_type policy rq k =
     \<lparr>magic = MAGIC cfg, header_size = of_nat (HEADER_SIZE cfg),
      type_policy = push_bit 4 req_type OR (0x0F AND policy), flags = 0, rid = rq,
      p_order = k\<rparr>"

definition hdr_inv :: "r2p2_consts \<Rightarrow> 8 word \<Rightarrow> 8 word \<Rightarrow> 16 word \<Rightarrow> prep_state \<Rightarrow> bool" where
  "hdr_inv cfg t p rq st \<longleftrightarrow>
     gb_p st = (if pbuffers st = [] then None else Some (length (pbuffers st) - 1)) \<and>
     buffer_cnt st = of_nat (length (pbuffers st)) \<and>
     map hdr (pbuffers st) =
       map (\<lambda>i. new_header cfg t p rq (of_nat i)) [0..<length (pbuffers st)]"

lemma prepare_loop_invariant:
  assumes "prepare_loop cfg iov t p r sg st = Inr st'" and "I st"
    and "\<And>s s'. I s \<Longrightarrow> iov_idx s < length iov \<Longrightarrow>
           prepare_step cfg iov t p r sg s = Inr s' \<Longrightarrow> I s'"
  shows "I st' \<and> \<not> iov_idx st' < length iov"
  using assms
proof (induction cfg iov t p r sg st rule: prepare_loop.induct)
  case (1 cfg iov t p r sg st)
  show ?case
  proof (cases "iov_idx st < length iov")
    case True
    with "1.prems"(1) obtain st1 where s1: "prepare_step cfg iov t p r sg st = Inr st1"
      and l1: "prepare_loop cfg iov t p r sg st1 = Inr st'"
      by (auto simp: prepare_loop.simps [of cfg iov t p r sg st] split: sum.splits)
    from "1.prems"(3) [OF "1.prems"(2) True s1] have i1: "I st1" .
    show ?thesis
    proof (rule "1.IH" [OF True s1 l1 i1])
      fix s s' assume "I s" "iov_idx s < length iov" "prepare_step cfg iov t p r sg s = Inr s'"
      then show "I s'" by (rule "1.prems"(3))
    qed
  next
    case False
    with "1.prems"(1,2) show ?thesis by (simp add: prepare_loop.simps [of cfg iov t p r sg st])
  qed
qed

lemma map_list_update_same: "f y = f (xs ! i) \<Longrightarrow> map f (xs[i := y]) = map f xs"
  by (cases "i < length xs") (simp_all add: map_update list_update_same_conv list_update_beyond)

lemma map_hdr_update_size [simp]:
  "map hdr (bs[i := (bs ! i)\<lparr>payload_size := x\<rparr>]) = map hdr bs"
  by (simp add: map_list_update_same)

lemma map_hdr_update_body [simp]:
  "map hdr (bs[i := (bs ! i)\<lparr>body := x\<rparr>]) = map hdr bs"
  by (simp add: map_list_update_same)

lemma ucast_of_nat_32_8: "(ucast (of_nat n :: 32 word) :: 8 word) = of_nat n"
  by transfer (simp add: take_bit_of_nat min_def)

lemma prepare_alloc_hdr:
  assumes "prepare_alloc cfg t p rq sg st = Inr st'" and "hdr_inv cfg t p rq st"
  shows "hdr_inv cfg t p rq st' \<and> pbuffers st' \<noteq> []"
  using assms
  by (auto simp: prepare_alloc_def hdr_inv_def Let_def new_header_def ucast_of_nat_32_8
      split: if_splits option.splits)

lemma prepare_copy_hdr:
  assumes "prepare_copy iov st = Inr st'" and "hdr_inv cfg t p rq st"
  shows "hdr_inv cfg t p rq st'"
  using assms
  by (auto simp: prepare_copy_def hdr_inv_def Let_def split: if_splits option.splits)

lemma prepare_step_hdr:
  assumes "prepare_step cfg iov t p rq sg st = Inr st'" and "hdr_inv cfg t p rq st"
  shows "hdr_inv cfg t p rq st'"
  using assms prepare_alloc_hdr prepare_copy_hdr
  by (fastforce simp: prepare_step_def split: if_splits sum.splits)

lemma hdr_inv_nth:
  "hdr_inv cfg t p rq st \<Longrightarrow> i < length (pbuffers st) \<Longrightarrow>
     hdr (pbuffers st ! i) = new_header cfg t p rq (of_nat i)"
proof -
  assume h: "hdr_inv cfg t p rq st" and i: "i < length (pbuffers st)"
  then have "map hdr (pbuffers st) ! i =
      map (\<lambda>i. new_header cfg t p rq (of_nat i)) [0..<length (pbuffers st)] ! i"
    by (simp add: hdr_inv_def)
  with i show ?thesis by simp
qed

definition initial_state :: "r2p2_msg \<Rightarrow> nat \<Rightarrow> prep_state" where
  "initial_state msg avail =
     \<lparr>iov_idx = 0, bufferleft = 0, copied = 0, buffer_cnt = 0, is_first_v = True,
      gb_p = None, pbuffers = buffers msg, pool = avail\<rparr>"

definition patch_headers :: "r2p2_consts \<Rightarrow> 32 word \<Rightarrow> buffer list \<Rightarrow> buffer list" where
  "patch_headers cfg cnt bs =
     (let h = hdr (bs ! 0);
          bs1 = bs[0 := (bs ! 0)\<lparr>hdr := h\<lparr>flags := flags h OR F_FLAG cfg,
                                          p_order := ucast cnt\<rparr>\<rparr>];
          k = length bs1 - 1;
          t = hdr (bs1 ! k)
      in bs1[k := (bs1 ! k)\<lparr>hdr := t\<lparr>flags := flags t OR L_FLAG cfg\<rparr>\<rparr>])"

lemma r2p2_prepare_msg_alt:
  "r2p2_prepare_msg cfg msg avail iov t p rq =
     (case prepare_loop cfg iov t p rq (total_payload iov \<le> PAYLOAD_SIZE cfg)
             (initial_state msg avail) of
        Inl e \<Rightarrow> Inl e
      | Inr st \<Rightarrow>
         (case set_buffer_payload_size (gb_p st)
                 (int (PAYLOAD_SIZE cfg) + int (HEADER_SIZE cfg) - int (bufferleft st))
                 (pbuffers st) of
            Inl e \<Rightarrow> Inl e
          | Inr bs \<Rightarrow>
              if bs = [] then Inl NullDeref
              else Inr (msg\<lparr>buffers := patch_headers cfg (buffer_cnt st) bs, req_id := rq\<rparr>,
                        pool st)))"
  unfolding r2p2_prepare_msg_def patch_headers_def initial_state_def Let_def by (rule refl)

lemma length_patch_headers [simp]: "length (patch_headers cfg cnt bs) = length bs"
  by (simp add: patch_headers_def Let_def)

lemma patch_headers_summary:
  "map (\<lambda>b. (body b, payload_size b)) (patch_headers cfg cnt bs) =
   map (\<lambda>b. (body b, payload_size b)) bs"
  by (simp add: patch_headers_def Let_def map_list_update_same)

lemma patch_headers_nth:
  assumes "i < length bs"
  shows "hdr (patch_headers cfg cnt bs ! i) =
     (hdr (bs ! i))
       \<lparr>flags := (if i = 0 then flags (hdr (bs ! i)) OR F_FLAG cfg else flags (hdr (bs ! i))) OR
                  (if i = length bs - 1 then L_FLAG cfg else 0),
        p_order := (if i = 0 then ucast cnt else p_order (hdr (bs ! i)))\<rparr>"
  using assms by (auto simp: patch_headers_def Let_def nth_list_update)

lemma prepare_msg_result:
  assumes "r2p2_prepare_msg cfg msg avail iov t p rq = Inr (m, left)"
  shows "\<exists>st bs. prepare_loop cfg iov t p rq (total_payload iov \<le> PAYLOAD_SIZE cfg)
             (initial_state msg avail) = Inr st \<and>
           set_buffer_payload_size (gb_p st)
             (int (PAYLOAD_SIZE cfg) + int (HEADER_SIZE cfg) - int (bufferleft st))
             (pbuffers st) = Inr bs \<and> bs \<noteq> [] \<and> left = pool st \<and>
           buffers m = patch_headers cfg (buffer_cnt st) bs"
  using assms
  by (auto simp: r2p2_prepare_msg_alt split: sum.splits if_splits)

lemma prepare_msg_headers:
  assumes res: "r2p2_prepare_msg cfg msg avail iov t p rq = Inr (m, left)"
    and empty: "buffers msg = []"
  shows "buffers m \<noteq> [] \<and>
     hdr (buffers m ! 0) =
       (new_header cfg t p rq (of_nat (length (buffers m))))
         \<lparr>flags := (if length (buffers m) = 1 then F_FLAG cfg OR L_FLAG cfg else F_FLAG cfg)\<rparr> \<and>
     (\<forall>i. 0 < i \<and> i < length (buffers m) \<longrightarrow>
        hdr (buffers m ! i) =
          (new_header cfg t p rq (of_nat i))
            \<lparr>flags := (if i = length (buffers m) - 1 then L_FLAG cfg else 0)\<rparr>)"
proof -
  from prepare_msg_result [OF res] obtain st bs where
    loop: "prepare_loop cfg iov t p rq (total_payload iov \<le> PAYLOAD_SIZE cfg)
             (initial_state msg avail) = Inr st"
    and sz: "set_buffer_payload_size (gb_p st)
             (int (PAYLOAD_SIZE cfg) + int (HEADER_SIZE cfg) - int (bufferleft st))
             (pbuffers st) = Inr bs"
    and ne: "bs \<noteq> []"
    and m: "buffers m = patch_headers cfg (buffer_cnt st) bs"
    by blast
  have "hdr_inv cfg t p rq st \<and> \<not> iov_idx st < length iov"
  proof (rule prepare_loop_invariant [OF loop])
    show "hdr_inv cfg t p rq (initial_state msg avail)"
      using empty by (simp add: hdr_inv_def initial_state_def)
  next
    fix s s'
    assume "hdr_inv cfg t p rq s"
      and "prepare_step cfg iov t p rq (total_payload iov \<le> PAYLOAD_SIZE cfg) s = Inr s'"
    then show "hdr_inv cfg t p rq s'" using prepare_step_hdr by blast
  qed
  then have inv: "hdr_inv cfg t p rq st" by simp
  from sz have len: "length bs = length (pbuffers st)" and hb: "map hdr bs = map hdr (pbuffers st)"
    by (auto simp: set_buffer_payload_size_def split: option.splits)
  have nth: "hdr (bs ! i) = new_header cfg t p rq (of_nat i)" if "i < length bs" for i
  proof -
    from that have "hdr (bs ! i) = map hdr bs ! i" by simp
    also have "\<dots> = hdr (pbuffers st ! i)" using that len hb by simp
    finally show ?thesis using hdr_inv_nth [OF inv] that len by simp
  qed
  from inv len have cnt: "ucast (buffer_cnt st) = (of_nat (length bs) :: 8 word)"
    by (simp add: hdr_inv_def ucast_of_nat_32_8)
  from ne have l0: "0 < length bs" by simp
  from ne have l1: "length bs = Suc 0 \<or> Suc 0 < length bs" by (cases bs) auto
  have h0: "hdr (buffers m ! 0) =
       (new_header cfg t p rq (of_nat (length (buffers m))))
         \<lparr>flags := (if length (buffers m) = 1 then F_FLAG cfg OR L_FLAG cfg else F_FLAG cfg)\<rparr>"
    using l0 l1 nth [OF l0] cnt
    by (auto simp: m patch_headers_nth new_header_def)
  have hi: "hdr (buffers m ! i) =
          (new_header cfg t p rq (of_nat i))
            \<lparr>flags := (if i = length (buffers m) - 1 then L_FLAG cfg else 0)\<rparr>"
    if "0 < i" "i < length (buffers m)" for i
    using that nth [of i]
    by (auto simp: m patch_headers_nth new_header_def)
  from ne have "buffers m \<noteq> []" unfolding m by (metis length_patch_headers length_0_conv)
  with h0 hi show ?thesis by blast
qed

definition capacity :: "r2p2_consts \<Rightarrow> bool \<Rightarrow> nat \<Rightarrow> nat" where
  "capacity cfg sg i = (if i = 0 \<and> \<not> sg then MIN_PAYLOAD_SIZE cfg else PAYLOAD_SIZE cfg)"

definition closed_size :: "r2p2_consts \<Rightarrow> nat \<Rightarrow> int" where
  "closed_size cfg i =
     int (if i = 0 then MIN_PAYLOAD_SIZE cfg else PAYLOAD_SIZE cfg) + int (HEADER_SIZE cfg)"

definition consumed :: "iovec list \<Rightarrow> prep_state \<Rightarrow> 8 word list" where
  "consumed iov st =
     concat (take (iov_idx st) iov) @ take (unat (copied st)) (iov ! iov_idx st)"

definition fill_inv :: "r2p2_consts \<Rightarrow> iovec list \<Rightarrow> bool \<Rightarrow> prep_state \<Rightarrow> bool" where
  "fill_inv cfg iov sg st \<longleftrightarrow>
     shape_inv iov st \<and>
     concat (map body (pbuffers st)) = consumed iov st \<and>
     map (\<lambda>b. (length (body b), payload_size b)) (butlast (pbuffers st)) =
       map (\<lambda>i. (capacity cfg sg i, closed_size cfg i)) [0..<length (pbuffers st) - 1] \<and>
     (pbuffers st \<noteq> [] \<longrightarrow>
        length (body (last (pbuffers st))) + bufferleft st =
          capacity cfg sg (length (pbuffers st) - 1))"

lemma list_update_last: "bs \<noteq> [] \<Longrightarrow> bs[length bs - Suc 0 := x] = butlast bs @ [x]"
  by (induction bs rule: rev_induct) simp_all

lemma nth_last: "bs \<noteq> [] \<Longrightarrow> bs ! (length bs - Suc 0) = last bs"
  by (simp add: last_conv_nth)

lemma prepare_alloc_fill:
  assumes a: "prepare_alloc cfg t p rq sg st = Inr st1" and f: "fill_inv cfg iov sg st"
    and z: "bufferleft st = 0"
  shows "fill_inv cfg iov sg st1 \<and> pbuffers st1 \<noteq> [] \<and> iov_idx st1 = iov_idx st \<and>
     pool st1 < pool st \<and> bufferleft st1 = capacity cfg sg (length (pbuffers st)) \<and>
     length (pbuffers st1) = Suc (length (pbuffers st)) \<and> body (last (pbuffers st1)) = []"
proof -
  from f have sh: "shape_inv iov st" by (simp add: fill_inv_def)
  from prepare_alloc_shape [OF a sh] have sh1: "shape_inv iov st1" by simp
  show ?thesis
  proof (cases "pbuffers st = []")
    case True
    with sh have g: "gb_p st = None" and fv: "is_first_v st"
      by (simp_all add: shape_inv_def)
    from a have p: "0 < pool st" by (auto simp: prepare_alloc_def split: if_splits)
    from a p have st1: "pbuffers st1 =
          [\<lparr>hdr = \<lparr>magic = MAGIC cfg, header_size = of_nat (HEADER_SIZE cfg),
                   type_policy = push_bit 4 t OR (0x0F AND p), flags = 0, rid = rq,
                   p_order = ucast (buffer_cnt st)\<rparr>, body = [], payload_size = 0\<rparr>]"
      and rest: "iov_idx st1 = iov_idx st" "copied st1 = copied st" "pool st1 < pool st"
        "bufferleft st1 = capacity cfg sg 0"
      by (auto simp: prepare_alloc_def Let_def True g fv capacity_def)
    from f True have con: "consumed iov st = []" by (simp add: fill_inv_def)
    show ?thesis
      using sh1 rest con
      by (simp add: fill_inv_def st1 True consumed_def)
  next
    case False
    then obtain pre cur where bs: "pbuffers st = pre @ [cur]"
      by (cases "pbuffers st" rule: rev_cases) auto
    with sh have g: "gb_p st = Some (length pre)"
      and fv: "is_first_v st \<longleftrightarrow> pre = []"
      by (simp_all add: shape_inv_def)
    from f bs z have cur: "length (body cur) = capacity cfg sg (length pre)"
      and pre: "map (\<lambda>b. (length (body b), payload_size b)) pre =
          map (\<lambda>i. (capacity cfg sg i, closed_size cfg i)) [0..<length pre]"
      and con: "concat (map body pre) @ body cur = consumed iov st"
      by (simp_all add: fill_inv_def)
    from a have p: "0 < pool st" by (auto simp: prepare_alloc_def split: if_splits)
    have cs: "(if pre = [] then int (MIN_PAYLOAD_SIZE cfg) + int (HEADER_SIZE cfg)
               else int (PAYLOAD_SIZE cfg) + int (HEADER_SIZE cfg)) = closed_size cfg (length pre)"
      by (simp add: closed_size_def)
    from a p have st1: "pbuffers st1 = pre @ [cur\<lparr>payload_size := closed_size cfg (length pre)\<rparr>,
           \<lparr>hdr = \<lparr>magic = MAGIC cfg, header_size = of_nat (HEADER_SIZE cfg),
                   type_policy = push_bit 4 t OR (0x0F AND p), flags = 0, rid = rq,
                   p_order = ucast (buffer_cnt st)\<rparr>, body = [], payload_size = 0\<rparr>]"
      and rest: "iov_idx st1 = iov_idx st" "copied st1 = copied st" "pool st1 < pool st"
        "bufferleft st1 = PAYLOAD_SIZE cfg"
      using cs by (auto simp: prepare_alloc_def Let_def bs g fv)
    have cap: "PAYLOAD_SIZE cfg = capacity cfg sg (Suc (length pre))"
      by (simp add: capacity_def)
    show ?thesis
      using sh1 cur pre con rest cap
      by (simp add: fill_inv_def st1 bs consumed_def butlast_append)
  qed
qed

lemma consumed_next:
  assumes i: "i < length iov" and ck: "c + k = length (iov ! i)"
  shows "concat (take (Suc i) iov) =
         concat (take i iov) @ take c (iov ! i) @ take k (drop c (iov ! i))"
proof -
  have "take c (iov ! i) @ take k (drop c (iov ! i)) = take (c + k) (iov ! i)"
    by (simp add: take_add)
  with ck have "take c (iov ! i) @ take k (drop c (iov ! i)) = iov ! i" by simp
  with i show ?thesis by (simp add: take_Suc_conv_app_nth)
qed

lemma prepare_copy_fill:
  assumes c: "prepare_copy iov st = Inr st'" and f: "fill_inv cfg iov sg st"
    and ne: "pbuffers st \<noteq> []"
    and i: "iov_idx st < length iov" and lens: "\<forall>v \<in> set iov. length v < 2 ^ 32"
  shows "fill_inv cfg iov sg st' \<and> pool st' = pool st \<and>
     length (pbuffers st') = length (pbuffers st) \<and>
     (body (last (pbuffers st')) = [] \<longrightarrow>
        body (last (pbuffers st)) = [] \<and>
        (bufferleft st = 0 \<or> iov ! iov_idx st = []))"
proof -
  let ?src = "iov ! iov_idx st"
  let ?c = "unat (copied st)"
  from f have sh: "shape_inv iov st" by (simp add: fill_inv_def)
  from prepare_copy_shape [OF c sh ne i lens] have sh': "shape_inv iov st'" by simp
  from i lens have len: "length ?src < 2 ^ 32" by simp
  from ne obtain pre cur where bs: "pbuffers st = pre @ [cur]"
    by (cases "pbuffers st" rule: rev_cases) auto
  with sh have g: "gb_p st = Some (length pre)" by (simp add: shape_inv_def)
  from prepare_copy_eq [OF g shape_copied_le [OF sh] len] c
  obtain k w where ck: "?c + k \<le> length ?src" and kb: "k \<le> bufferleft st"
    and kk: "k = bufferleft st \<or> ?c + k = length ?src"
    and u: "unat w = ?c + k"
    and st': "st' = st\<lparr>pbuffers := (pbuffers st)[length pre :=
                 (pbuffers st ! length pre)\<lparr>body :=
                    body (pbuffers st ! length pre) @ take k (drop ?c ?src)\<rparr>],
              bufferleft := bufferleft st - k,
              copied := (if ?c + k = length ?src then 0 else w),
              iov_idx := (if ?c + k = length ?src then iov_idx st + 1 else iov_idx st)\<rparr>"
    by auto
  have pb: "pbuffers st' = pre @ [cur\<lparr>body := body cur @ take k (drop ?c ?src)\<rparr>]"
    by (simp add: st' bs)
  have adv: "consumed iov st' = consumed iov st @ take k (drop ?c ?src)"
  proof (cases "?c + k = length ?src")
    case True
    with consumed_next [OF i True] show ?thesis by (simp add: consumed_def st')
  next
    case False
    then show ?thesis by (simp add: consumed_def st' u take_add)
  qed
  from f bs have cur: "length (body cur) + bufferleft st = capacity cfg sg (length pre)"
    and pre: "map (\<lambda>b. (length (body b), payload_size b)) pre =
          map (\<lambda>i. (capacity cfg sg i, closed_size cfg i)) [0..<length pre]"
    and con: "concat (map body pre) @ body cur = consumed iov st"
    by (simp_all add: fill_inv_def)
  have tk: "length (take k (drop ?c ?src)) = k" using ck by simp
  have bl: "bufferleft st' = bufferleft st - k" and pl: "pool st' = pool st"
    by (simp_all add: st')
  have fill: "fill_inv cfg iov sg st'"
    using sh' cur pre con adv kb tk
    by (simp add: fill_inv_def pb bl del: length_take)
  have "k = 0 \<longrightarrow> bufferleft st = 0 \<or> ?src = []"
  proof
    assume k0: "k = 0"
    show "bufferleft st = 0 \<or> ?src = []"
    proof (cases "bufferleft st = 0")
      case False
      with kk k0 have "?c = length ?src" by simp
      with sh i have "?src = []" by (auto simp: shape_inv_def)
      then show ?thesis by simp
    qed simp
  qed
  with fill pl tk show ?thesis
    by (auto simp: pb bs simp del: length_take)
qed

definition last_filled :: "prep_state \<Rightarrow> bool" where
  "last_filled st = (pbuffers st \<noteq> [] \<longrightarrow> body (last (pbuffers st)) \<noteq> [])"

lemma capacity_pos:
  "0 < MIN_PAYLOAD_SIZE cfg \<Longrightarrow> 0 < PAYLOAD_SIZE cfg \<Longrightarrow> 0 < capacity cfg sg i"
  by (simp add: capacity_def)

lemma prepare_step_fill:
  assumes step: "prepare_step cfg iov t p rq sg st = Inr st'"
    and f: "fill_inv cfg iov sg st"
    and i: "iov_idx st < length iov" and lens: "\<forall>v \<in> set iov. length v < 2 ^ 32"
  shows "fill_inv cfg iov sg st'"
    and "0 < MIN_PAYLOAD_SIZE cfg \<Longrightarrow> 0 < PAYLOAD_SIZE cfg \<Longrightarrow> [] \<notin> set iov \<Longrightarrow>
           last_filled st \<Longrightarrow> last_filled st'"
    and "pool st' + length (pbuffers st') = pool st + length (pbuffers st)"
proof -
  from f have sh: "shape_inv iov st" by (simp add: fill_inv_def)
  have "fill_inv cfg iov sg st' \<and>
        (0 < MIN_PAYLOAD_SIZE cfg \<longrightarrow> 0 < PAYLOAD_SIZE cfg \<longrightarrow> [] \<notin> set iov \<longrightarrow>
           last_filled st \<longrightarrow> last_filled st') \<and>
        pool st' + length (pbuffers st') = pool st + length (pbuffers st)"
  proof (cases "bufferleft st = 0")
    case True
    with step obtain st1 where a: "prepare_alloc cfg t p rq sg st = Inr st1"
      and c: "prepare_copy iov st1 = Inr st'"
      by (auto simp: prepare_step_def split: sum.splits)
    from prepare_alloc_fill [OF a f True]
    have f1: "fill_inv cfg iov sg st1" and ne1: "pbuffers st1 \<noteq> []"
      and i1: "iov_idx st1 = iov_idx st" and bl1: "bufferleft st1 = capacity cfg sg (length (pbuffers st))"
      and l1: "length (pbuffers st1) = Suc (length (pbuffers st))"
      by simp_all
    from a have p1: "pool st = Suc (pool st1)"
      by (auto simp: prepare_alloc_def Let_def split: if_splits)
    from i i1 have ii: "iov_idx st1 < length iov" by simp
    from prepare_copy_fill [OF c f1 ne1 ii lens]
    have f': "fill_inv cfg iov sg st'" and p': "pool st' = pool st1"
      and l': "length (pbuffers st') = length (pbuffers st1)"
      and e': "body (last (pbuffers st')) = [] \<longrightarrow>
          bufferleft st1 = 0 \<or> iov ! iov_idx st1 = []"
      by simp_all
    from ii have "iov ! iov_idx st1 \<in> set iov" by simp
    with e' bl1 capacity_pos [of cfg sg "length (pbuffers st)"]
    have "0 < MIN_PAYLOAD_SIZE cfg \<longrightarrow> 0 < PAYLOAD_SIZE cfg \<longrightarrow> [] \<notin> set iov \<longrightarrow>
        last_filled st'"
      by (auto simp: last_filled_def)
    with f' p' l' l1 p1 show ?thesis by simp
  next
    case False
    with step have c: "prepare_copy iov st = Inr st'" by (simp add: prepare_step_def)
    from False sh have ne: "pbuffers st \<noteq> []" by (auto simp: shape_inv_def)
    from prepare_copy_fill [OF c f ne i lens] ne
    show ?thesis by (auto simp: last_filled_def)
  qed
  then show "fill_inv cfg iov sg st'"
    and "0 < MIN_PAYLOAD_SIZE cfg \<Longrightarrow> 0 < PAYLOAD_SIZE cfg \<Longrightarrow> [] \<notin> set iov \<Longrightarrow>
           last_filled st \<Longrightarrow> last_filled st'"
    and "pool st' + length (pbuffers st') = pool st + length (pbuffers st)"
    by simp_all
qed

lemma initial_fill:
  "buffers msg = [] \<Longrightarrow> fill_inv cfg iov sg (initial_state msg avail)"
  by (simp add: fill_inv_def shape_inv_def initial_state_def consumed_def)

text \<open>What the loop leaves behind, for a message that starts empty.\<close>

lemma prepare_loop_fill:
  assumes loop: "prepare_loop cfg iov t p rq sg (initial_state msg avail) = Inr st"
    and empty: "buffers msg = []" and lens: "\<forall>v \<in> set iov. length v < 2 ^ 32"
  shows "fill_inv cfg iov sg st" and "iov_idx st = length iov" and "copied st = 0"
    and "consumed iov st = concat iov"
    and "pool st + length (pbuffers st) = avail"
    and "0 < MIN_PAYLOAD_SIZE cfg \<Longrightarrow> 0 < PAYLOAD_SIZE cfg \<Longrightarrow> [] \<notin> set iov \<Longrightarrow>
           last_filled st"
proof -
  let ?I = "\<lambda>s. fill_inv cfg iov sg s \<and>
      pool s + length (pbuffers s) = avail \<and>
      (0 < MIN_PAYLOAD_SIZE cfg \<longrightarrow> 0 < PAYLOAD_SIZE cfg \<longrightarrow> [] \<notin> set iov \<longrightarrow> last_filled s)"
  have "?I st \<and> \<not> iov_idx st < length iov"
  proof (rule prepare_loop_invariant [OF loop])
    show "?I (initial_state msg avail)"
      using initial_fill [OF empty] empty by (simp add: last_filled_def initial_state_def)
  next
    fix s s'
    assume "?I s" and "iov_idx s < length iov"
      and "prepare_step cfg iov t p rq sg s = Inr s'"
    with prepare_step_fill [of cfg iov t p rq sg s s'] lens show "?I s'" by simp
  qed
  then have I: "?I st" and fin: "\<not> iov_idx st < length iov" by simp_all
  from I show f: "fill_inv cfg iov sg st" by simp
  then have sh: "shape_inv iov st" by (simp add: fill_inv_def)
  with fin show idx: "iov_idx st = length iov" and c: "copied st = 0"
    by (auto simp: shape_inv_def)
  then show "consumed iov st = concat iov" by (simp add: consumed_def)
  from I show "pool st + length (pbuffers st) = avail" by simp
  from I show "0 < MIN_PAYLOAD_SIZE cfg \<Longrightarrow> 0 < PAYLOAD_SIZE cfg \<Longrightarrow> [] \<notin> set iov \<Longrightarrow>
           last_filled st" by simp
qed

definition remaining :: "iovec list \<Rightarrow> prep_state \<Rightarrow> nat" where
  "remaining iov st =
     sum_list (map length (drop (iov_idx st) iov)) - unat (copied st) +
     (length iov - iov_idx st)"

lemma prepare_copy_progress:
  assumes sh: "shape_inv iov st" and ne: "pbuffers st \<noteq> []"
    and i: "iov_idx st < length iov" and lens: "\<forall>v \<in> set iov. length v < 2 ^ 32"
    and bl: "0 < bufferleft st"
  shows "\<exists>st'. prepare_copy iov st = Inr st' \<and> pool st' = pool st \<and>
     remaining iov st' < remaining iov st"
proof -
  let ?src = "iov ! iov_idx st"
  let ?c = "unat (copied st)"
  from i lens have len: "length ?src < 2 ^ 32" by simp
  from sh ne have g: "gb_p st = Some (length (pbuffers st) - 1)" by (simp add: shape_inv_def)
  from prepare_copy_eq [OF g shape_copied_le [OF sh] len]
  obtain k w st' where ck: "?c + k \<le> length ?src"
    and kk: "k = bufferleft st \<or> ?c + k = length ?src"
    and u: "unat w = ?c + k"
    and c: "prepare_copy iov st = Inr st'"
    and st': "st' = st\<lparr>pbuffers := (pbuffers st)[length (pbuffers st) - 1 :=
                 (pbuffers st ! (length (pbuffers st) - 1))\<lparr>body :=
                    body (pbuffers st ! (length (pbuffers st) - 1)) @ take k (drop ?c ?src)\<rparr>],
              bufferleft := bufferleft st - k,
              copied := (if ?c + k = length ?src then 0 else w),
              iov_idx := (if ?c + k = length ?src then iov_idx st + 1 else iov_idx st)\<rparr>"
    by blast
  have d: "drop (iov_idx st) iov = ?src # drop (Suc (iov_idx st)) iov"
    using i by (simp add: Cons_nth_drop_Suc)
  have "remaining iov st' < remaining iov st"
  proof (cases "?c + k = length ?src")
    case True
    with i show ?thesis by (simp add: remaining_def st' d)
  next
    case False
    with kk bl have "0 < k" by simp
    with False ck i show ?thesis by (simp add: remaining_def st' d u)
  qed
  with c show ?thesis by (simp add: st')
qed

lemma prepare_step_progress:
  assumes sh: "shape_inv iov st"
    and i: "iov_idx st < length iov" and lens: "\<forall>v \<in> set iov. length v < 2 ^ 32"
    and pos: "0 < MIN_PAYLOAD_SIZE cfg" "0 < PAYLOAD_SIZE cfg"
    and enough: "remaining iov st \<le> pool st"
  shows "\<exists>st'. prepare_step cfg iov t p rq sg st = Inr st' \<and> remaining iov st' \<le> pool st'"
proof (cases "bufferleft st = 0")
  case True
  from i have "0 < remaining iov st" by (simp add: remaining_def)
  with enough have p: "0 < pool st" by simp
  then obtain st1 where a: "prepare_alloc cfg t p rq sg st = Inr st1"
    by (auto simp: prepare_alloc_def Let_def)
  from prepare_alloc_shape [OF a sh] have s1: "shape_inv iov st1" "pbuffers st1 \<noteq> []"
    by simp_all
  from a p pos have e1: "iov_idx st1 = iov_idx st" "copied st1 = copied st"
    "Suc (pool st1) = pool st" "0 < bufferleft st1"
    by (auto simp: prepare_alloc_def Let_def)
  from e1 i have i1: "iov_idx st1 < length iov" by simp
  from prepare_copy_progress [OF s1 i1 lens e1(4)]
  obtain st' where c: "prepare_copy iov st1 = Inr st'" and p': "pool st' = pool st1"
    and r': "remaining iov st' < remaining iov st1" by blast
  from e1 have "remaining iov st1 = remaining iov st" by (simp add: remaining_def)
  with r' p' e1(3) enough have "remaining iov st' \<le> pool st'" by simp
  with True a c show ?thesis by (simp add: prepare_step_def)
next
  case False
  with sh have ne: "pbuffers st \<noteq> []" by (auto simp: shape_inv_def)
  from False have "0 < bufferleft st" by simp
  from prepare_copy_progress [OF sh ne i lens this] False enough
  show ?thesis by (auto simp: prepare_step_def)
qed

lemma prepare_loop_succeeds:
  assumes "shape_inv iov st" and "\<forall>v \<in> set iov. length v < 2 ^ 32"
    and "0 < MIN_PAYLOAD_SIZE cfg" "0 < PAYLOAD_SIZE cfg"
    and "remaining iov st \<le> pool st"
  shows "\<exists>st'. prepare_loop cfg iov t p rq sg st = Inr st'"
  using assms
proof (induction cfg iov t p rq sg st rule: prepare_loop.induct)
  case (1 cfg iov t p rq sg st)
  show ?case
  proof (cases "iov_idx st < length iov")
    case True
    from prepare_step_progress [OF "1.prems"(1) True "1.prems"(2-5)]
    obtain st1 where s1: "prepare_step cfg iov t p rq sg st = Inr st1"
      and r1: "remaining iov st1 \<le> pool st1" by blast
    from prepare_step_shape [OF s1 "1.prems"(1) True "1.prems"(2)]
    have sh1: "shape_inv iov st1" by simp
    from "1.IH" [OF True s1 sh1 "1.prems"(2-4) r1] True s1
    show ?thesis by (simp add: prepare_loop.simps [of cfg iov t p rq sg st])
  next
    case False
    then show ?thesis by (simp add: prepare_loop.simps [of cfg iov t p rq sg st])
  qed
qed

lemma prepare_msg_result':
  assumes "r2p2_prepare_msg cfg msg avail iov t p rq = Inr (m, left)"
  shows "\<exists>st bs. prepare_loop cfg iov t p rq (total_payload iov \<le> PAYLOAD_SIZE cfg)
             (initial_state msg avail) = Inr st \<and>
           set_buffer_payload_size (gb_p st)
             (int (PAYLOAD_SIZE cfg) + int (HEADER_SIZE cfg) - int (bufferleft st))
             (pbuffers st) = Inr bs \<and> bs \<noteq> [] \<and> left = pool st \<and>
           length (buffers m) = length bs \<and>
           map (\<lambda>b. (body b, payload_size b)) (buffers m) =
             map (\<lambda>b. (body b, payload_size b)) bs"
  using prepare_msg_result [OF assms] by (auto simp: patch_headers_summary)

lemma prepare_msg_chain:
  assumes res: "r2p2_prepare_msg cfg msg avail iov t p rq = Inr (m, left)"
    and empty: "buffers msg = []" and lens: "\<forall>v \<in> set iov. length v < 2 ^ 32"
  shows "\<exists>bl. buffers m \<noteq> [] \<and>
     concat (map body (buffers m)) = concat iov \<and>
     map (\<lambda>b. (length (body b), payload_size b)) (butlast (buffers m)) =
       map (\<lambda>i. (capacity cfg (total_payload iov \<le> PAYLOAD_SIZE cfg) i, closed_size cfg i))
         [0..<length (buffers m) - 1] \<and>
     length (body (last (buffers m))) + bl =
       capacity cfg (total_payload iov \<le> PAYLOAD_SIZE cfg) (length (buffers m) - 1) \<and>
     payload_size (last (buffers m)) =
       int (PAYLOAD_SIZE cfg) + int (HEADER_SIZE cfg) - int bl \<and>
     left + length (buffers m) = avail \<and>
     (0 < MIN_PAYLOAD_SIZE cfg \<longrightarrow> 0 < PAYLOAD_SIZE cfg \<longrightarrow> [] \<notin> set iov \<longrightarrow>
        body (last (buffers m)) \<noteq> [])"
proof -
  let ?sg = "total_payload iov \<le> PAYLOAD_SIZE cfg"
  let ?f = "\<lambda>b. (body b, payload_size b)"
  from prepare_msg_result' [OF res] obtain st bs where
    loop: "prepare_loop cfg iov t p rq ?sg (initial_state msg avail) = Inr st"
    and sz: "set_buffer_payload_size (gb_p st)
             (int (PAYLOAD_SIZE cfg) + int (HEADER_SIZE cfg) - int (bufferleft st))
             (pbuffers st) = Inr bs"
    and ne: "bs \<noteq> []" and left: "left = pool st"
    and lm: "length (buffers m) = length bs"
    and mm: "map ?f (buffers m) = map ?f bs"
    by blast
  note fill = prepare_loop_fill [OF loop empty lens]
  from sz ne have nes: "pbuffers st \<noteq> []"
    by (auto simp: set_buffer_payload_size_def split: option.splits)
  then obtain pre cur where ps: "pbuffers st = pre @ [cur]"
    by (cases "pbuffers st" rule: rev_cases) auto
  from fill(1) have sh: "shape_inv iov st" by (simp add: fill_inv_def)
  with ps have g: "gb_p st = Some (length pre)" by (simp add: shape_inv_def)
  from sz have bs: "bs = pre @ [cur\<lparr>payload_size :=
      int (PAYLOAD_SIZE cfg) + int (HEADER_SIZE cfg) - int (bufferleft st)\<rparr>]"
    by (simp add: set_buffer_payload_size_def g ps)
  from lm ne have nm: "buffers m \<noteq> []" by auto
  have bodies: "map body (buffers m) = map body bs"
  proof -
    have "map fst (map ?f (buffers m)) = map fst (map ?f bs)" using mm by simp
    then show ?thesis by (simp add: comp_def)
  qed
  have lastm: "?f (last (buffers m)) = ?f (last bs)"
  proof -
    have "?f (last (buffers m)) = last (map ?f (buffers m))" using nm by (simp add: last_map)
    also have "\<dots> = last (map ?f bs)" by (simp only: mm)
    also have "\<dots> = ?f (last bs)" using ne by (simp add: last_map)
    finally show ?thesis .
  qed
  have butm: "map ?f (butlast (buffers m)) = map ?f (butlast bs)"
  proof -
    have "map ?f (butlast (buffers m)) = butlast (map ?f (buffers m))" by (simp add: map_butlast)
    also have "\<dots> = butlast (map ?f bs)" by (simp only: mm)
    also have "\<dots> = map ?f (butlast bs)" by (simp add: map_butlast)
    finally show ?thesis .
  qed
  have butm': "map (\<lambda>b. (length (body b), payload_size b)) (butlast (buffers m)) =
      map (\<lambda>b. (length (body b), payload_size b)) pre"
  proof -
    have "map (\<lambda>x. (length (fst x), snd x)) (map ?f (butlast (buffers m))) =
          map (\<lambda>x. (length (fst x), snd x)) (map ?f (butlast bs))"
      using butm by simp
    then show ?thesis by (simp add: comp_def bs)
  qed
  from fill(1) ps have cur: "length (body cur) + bufferleft st = capacity cfg ?sg (length pre)"
    and pre: "map (\<lambda>b. (length (body b), payload_size b)) pre =
          map (\<lambda>i. (capacity cfg ?sg i, closed_size cfg i)) [0..<length pre]"
    and con: "concat (map body pre) @ body cur = consumed iov st"
    by (simp_all add: fill_inv_def)
  have c1: "concat (map body (buffers m)) = concat iov"
    using con fill(4) by (simp add: bodies bs)
  have c2: "map (\<lambda>b. (length (body b), payload_size b)) (butlast (buffers m)) =
       map (\<lambda>i. (capacity cfg ?sg i, closed_size cfg i)) [0..<length (buffers m) - 1]"
    using pre by (simp add: butm' lm bs)
  have c3: "length (body (last (buffers m))) + bufferleft st =
       capacity cfg ?sg (length (buffers m) - 1)"
    using lastm cur by (simp add: bs lm)
  have c4: "payload_size (last (buffers m)) =
       int (PAYLOAD_SIZE cfg) + int (HEADER_SIZE cfg) - int (bufferleft st)"
    using lastm by (simp add: bs)
  have c5: "left + length (buffers m) = avail"
    using fill(5) by (simp add: left lm bs ps)
  have c6: "0 < MIN_PAYLOAD_SIZE cfg \<longrightarrow> 0 < PAYLOAD_SIZE cfg \<longrightarrow> [] \<notin> set iov \<longrightarrow>
        body (last (buffers m)) \<noteq> []"
    using fill(6) lastm by (auto simp: last_filled_def ps bs)
  show ?thesis
    by (rule exI [of _ "bufferleft st"]) (intro conjI nm c1 c2 c3 c4 c5 c6)
qed

section \<open>The payload of an assembled chain\<close>

text \<open>
  What a buffer carries on the wire is decided by its payload size: the bytes after the
  header, up to that size. The payload of a chain is the concatenation over its buffers.
\<close>

definition buffer_payload :: "r2p2_consts \<Rightarrow> buffer \<Rightarrow> 8 word list" where
  "buffer_payload cfg b = take (nat (payload_size b - int (HEADER_SIZE cfg))) (body b)"

definition chain_payload :: "r2p2_consts \<Rightarrow> r2p2_msg \<Rightarrow> 8 word list" where
  "chain_payload cfg m = concat (map (buffer_payload cfg) (buffers m))"

lemma lens_of_total:
  assumes "sum_list (map length iov) < (2 :: nat) ^ 32"
  shows "\<forall>v \<in> set iov. length v < 2 ^ 32"
proof
  fix v assume "v \<in> set iov"
  then have "length v \<le> sum_list (map length iov)"
    by (simp add: member_le_sum_list)
  with assms show "length v < 2 ^ 32" by simp
qed

lemma length_concat_ends:
  assumes "1 < length bs"
  shows "length (body (hd bs)) + length (body (last bs)) \<le> length (concat (map body bs))"
proof -
  from assms obtain x ys where bs: "bs = x # ys" and "ys \<noteq> []"
    by (cases bs) auto
  then obtain zs l where "ys = zs @ [l]" by (cases ys rule: rev_cases) auto
  with bs show ?thesis by simp
qed

lemma prepare_msg_count:
  assumes res: "r2p2_prepare_msg cfg msg avail iov t p rq = Inr (m, left)"
    and empty: "buffers msg = []"
    and ne: "[] \<notin> set iov"
    and tot: "sum_list (map length iov) < 2 ^ 32"
    and pos: "0 < MIN_PAYLOAD_SIZE cfg" and le: "MIN_PAYLOAD_SIZE cfg \<le> PAYLOAD_SIZE cfg"
  shows "(1 < length (buffers m)) = (PAYLOAD_SIZE cfg < sum_list (map length iov))"
proof -
  let ?L = "sum_list (map length iov)"
  let ?sg = "total_payload iov \<le> PAYLOAD_SIZE cfg"
  let ?bs = "buffers m"
  from pos le have pp: "0 < PAYLOAD_SIZE cfg" by simp
  from tot have tp: "total_payload iov = ?L" by (simp add: total_payload_def)
  from prepare_msg_chain [OF res empty lens_of_total [OF tot]] pos pp ne
  obtain bl where nm: "?bs \<noteq> []"
    and con: "concat (map body ?bs) = concat iov"
    and cl: "map (\<lambda>b. (length (body b), payload_size b)) (butlast ?bs) =
       map (\<lambda>i. (capacity cfg ?sg i, closed_size cfg i)) [0..<length ?bs - 1]"
    and la: "length (body (last ?bs)) + bl = capacity cfg ?sg (length ?bs - 1)"
    and lf: "body (last ?bs) \<noteq> []"
    by blast
  have L: "length (concat (map body ?bs)) = ?L"
    by (simp add: con length_concat comp_def)
  show ?thesis
  proof
    assume n: "1 < length ?bs"
    show "PAYLOAD_SIZE cfg < ?L"
    proof (rule ccontr)
      assume "\<not> PAYLOAD_SIZE cfg < ?L"
      with tp have sg: "?sg" by simp
      from n have b0: "0 < length (butlast ?bs)" by simp
      have "map (\<lambda>b. (length (body b), payload_size b)) (butlast ?bs) ! 0 =
          map (\<lambda>i. (capacity cfg ?sg i, closed_size cfg i)) [0..<length ?bs - 1] ! 0"
        by (simp only: cl)
      with b0 n have "length (body (butlast ?bs ! 0)) = capacity cfg ?sg 0" by simp
      moreover from n have "butlast ?bs ! 0 = hd ?bs"
        by (cases ?bs) (auto simp: nth_butlast)
      ultimately have "length (body (hd ?bs)) = PAYLOAD_SIZE cfg"
        using sg by (simp add: capacity_def)
      with length_concat_ends [OF n] lf L have "PAYLOAD_SIZE cfg < ?L"
        by (cases "body (last ?bs)") auto
      with \<open>\<not> PAYLOAD_SIZE cfg < ?L\<close> show False by simp
    qed
  next
    assume big: "PAYLOAD_SIZE cfg < ?L"
    with tp have nsg: "\<not> ?sg" by simp
    show "1 < length ?bs"
    proof (rule ccontr)
      assume "\<not> 1 < length ?bs"
      with nm obtain b where b: "?bs = [b]" by (cases ?bs) auto
      with la nsg have "length (body b) \<le> MIN_PAYLOAD_SIZE cfg" by (simp add: capacity_def)
      moreover from L b have "length (body b) = ?L" by simp
      ultimately show False using big le by simp
    qed
  qed
qed

lemma prepare_msg_roundtrip:
  assumes res: "r2p2_prepare_msg cfg msg avail iov t p rq = Inr (m, left)"
    and empty: "buffers msg = []"
    and ne: "[] \<notin> set iov"
    and tot: "sum_list (map length iov) < 2 ^ 32"
    and pos: "0 < MIN_PAYLOAD_SIZE cfg" and le: "MIN_PAYLOAD_SIZE cfg \<le> PAYLOAD_SIZE cfg"
  shows "chain_payload cfg m = concat iov"
    and "map payload_size (buffers m) =
         map (\<lambda>b. int (HEADER_SIZE cfg) + int (length (body b))) (buffers m)"
proof -
  let ?L = "sum_list (map length iov)"
  let ?sg = "total_payload iov \<le> PAYLOAD_SIZE cfg"
  let ?bs = "buffers m"
  from tot have tp: "total_payload iov = ?L" by (simp add: total_payload_def)
  from prepare_msg_chain [OF res empty lens_of_total [OF tot]]
  obtain bl where nm: "?bs \<noteq> []"
    and con: "concat (map body ?bs) = concat iov"
    and cl: "map (\<lambda>b. (length (body b), payload_size b)) (butlast ?bs) =
       map (\<lambda>i. (capacity cfg ?sg i, closed_size cfg i)) [0..<length ?bs - 1]"
    and la: "length (body (last ?bs)) + bl = capacity cfg ?sg (length ?bs - 1)"
    and ls: "payload_size (last ?bs) = int (PAYLOAD_SIZE cfg) + int (HEADER_SIZE cfg) - int bl"
    by blast
  note cnt = prepare_msg_count [OF res empty ne tot pos le]
  have closed: "payload_size b = int (HEADER_SIZE cfg) + int (length (body b))"
    if "b \<in> set (butlast ?bs)" for b
  proof -
    from that obtain i where i: "i < length (butlast ?bs)" and b: "b = butlast ?bs ! i"
      by (auto simp: in_set_conv_nth)
    have "map (\<lambda>b. (length (body b), payload_size b)) (butlast ?bs) ! i =
          map (\<lambda>i. (capacity cfg ?sg i, closed_size cfg i)) [0..<length ?bs - 1] ! i"
      by (simp only: cl)
    with i have e: "length (body b) = capacity cfg ?sg i" "payload_size b = closed_size cfg i"
      by (simp_all add: b)
    from i have "1 < length ?bs" by simp
    with cnt tp have "\<not> ?sg" by simp
    with e show ?thesis by (simp add: capacity_def closed_size_def)
  qed
  have "capacity cfg ?sg (length ?bs - 1) = PAYLOAD_SIZE cfg"
  proof (cases "1 < length ?bs")
    case True
    then show ?thesis by (simp add: capacity_def)
  next
    case False
    with cnt tp have "?sg" by simp
    then show ?thesis by (simp add: capacity_def)
  qed
  with la ls have final: "payload_size (last ?bs) = int (HEADER_SIZE cfg) + int (length (body (last ?bs)))"
    by simp
  have all: "payload_size b = int (HEADER_SIZE cfg) + int (length (body b))" if "b \<in> set ?bs" for b
  proof -
    from nm have "?bs = butlast ?bs @ [last ?bs]" by simp
    then have "set ?bs = set (butlast ?bs) \<union> {last ?bs}"
      by (metis Un_insert_right list.simps(15) set_append sup_bot.right_neutral list.set(1))
    with that closed final show ?thesis by auto
  qed
  then show sizes: "map payload_size ?bs =
      map (\<lambda>b. int (HEADER_SIZE cfg) + int (length (body b))) ?bs"
    by simp
  have mb: "map (buffer_payload cfg) ?bs = map body ?bs"
    using all by (simp add: buffer_payload_def)
  show "chain_payload cfg m = concat iov"
    unfolding chain_payload_def mb by (rule con)
qed

lemma prepare_msg_succeeds:
  assumes empty: "buffers msg = []" and ne: "iov \<noteq> []"
    and lens: "\<forall>v \<in> set iov. length v < 2 ^ 32"
    and pos: "0 < MIN_PAYLOAD_SIZE cfg" "0 < PAYLOAD_SIZE cfg"
    and enough: "sum_list (map length iov) + length iov \<le> avail"
  shows "\<exists>m left. r2p2_prepare_msg cfg msg avail iov t p rq = Inr (m, left)"
proof -
  let ?sg = "total_payload iov \<le> PAYLOAD_SIZE cfg"
  have sh: "shape_inv iov (initial_state msg avail)"
    using empty by (simp add: shape_inv_def initial_state_def)
  have "remaining iov (initial_state msg avail) \<le> pool (initial_state msg avail)"
    using enough by (simp add: remaining_def initial_state_def)
  from prepare_loop_succeeds [OF sh lens pos this]
  obtain st where loop: "prepare_loop cfg iov t p rq ?sg (initial_state msg avail) = Inr st"
    by blast
  from ne have "iov_idx (initial_state msg avail) < length iov \<and>
      bufferleft (initial_state msg avail) = 0"
    by (simp add: initial_state_def)
  with prepare_loop_has_buffer [OF loop] have "has_buffer st" by blast
  with loop show ?thesis
    by (auto simp: r2p2_prepare_msg_alt set_buffer_payload_size_def has_buffer_def
        split: option.splits)
qed

lemma sum_capacity_multi:
  "sum_list (map (capacity cfg False) [0..<n]) =
     (if n = 0 then 0 else MIN_PAYLOAD_SIZE cfg + (n - 1) * PAYLOAD_SIZE cfg)"
proof (induction n)
  case 0
  then show ?case by simp
next
  case (Suc n)
  show ?case
  proof (cases n)
    case 0
    then show ?thesis by (simp add: capacity_def)
  next
    case (Suc k)
    with Suc.IH show ?thesis by (simp add: capacity_def)
  qed
qed

lemma prepare_msg_total_multi:
  assumes res: "r2p2_prepare_msg cfg msg avail iov t p rq = Inr (m, left)"
    and empty: "buffers msg = []"
    and ne: "[] \<notin> set iov"
    and tot: "sum_list (map length iov) < 2 ^ 32"
    and big: "PAYLOAD_SIZE cfg < sum_list (map length iov)"
    and pos: "0 < MIN_PAYLOAD_SIZE cfg" "0 < PAYLOAD_SIZE cfg"
    and le: "MIN_PAYLOAD_SIZE cfg \<le> PAYLOAD_SIZE cfg"
  shows "\<exists>x. 0 < x \<and> x \<le> PAYLOAD_SIZE cfg \<and> 2 \<le> length (buffers m) \<and>
     sum_list (map length iov) =
       MIN_PAYLOAD_SIZE cfg + (length (buffers m) - 2) * PAYLOAD_SIZE cfg + x"
proof -
  let ?L = "sum_list (map length iov)"
  let ?sg = "total_payload iov \<le> PAYLOAD_SIZE cfg"
  let ?bs = "buffers m"
  from tot have tp: "total_payload iov = ?L" by (simp add: total_payload_def)
  with big have nsg: "?sg = False" by simp
  from prepare_msg_chain [OF res empty lens_of_total [OF tot]] pos ne
  obtain bl where nm: "?bs \<noteq> []"
    and con: "concat (map body ?bs) = concat iov"
    and cl: "map (\<lambda>b. (length (body b), payload_size b)) (butlast ?bs) =
       map (\<lambda>i. (capacity cfg ?sg i, closed_size cfg i)) [0..<length ?bs - 1]"
    and la: "length (body (last ?bs)) + bl = capacity cfg ?sg (length ?bs - 1)"
    and lf: "body (last ?bs) \<noteq> []"
    by blast
  have L: "length (concat (map body ?bs)) = ?L"
    by (simp add: con length_concat comp_def)
  have "map fst (map (\<lambda>b. (length (body b), payload_size b)) (butlast ?bs)) =
        map fst (map (\<lambda>i. (capacity cfg ?sg i, closed_size cfg i)) [0..<length ?bs - 1])"
    by (simp only: cl)
  then have "map (\<lambda>b. length (body b)) (butlast ?bs) =
      map (capacity cfg False) [0..<length ?bs - 1]"
    by (simp add: comp_def nsg)
  then have sb: "sum_list (map (\<lambda>b. length (body b)) (butlast ?bs)) =
      (if length ?bs - 1 = 0 then 0
       else MIN_PAYLOAD_SIZE cfg + (length ?bs - 1 - 1) * PAYLOAD_SIZE cfg)"
    by (simp only: sum_capacity_multi)
  from nm have split: "?bs = butlast ?bs @ [last ?bs]" by simp
  have "length (concat (map body ?bs)) =
      sum_list (map (\<lambda>b. length (body b)) (butlast ?bs)) + length (body (last ?bs))"
    by (subst split) (simp add: length_concat comp_def)
  with L sb have eq: "?L = (if length ?bs - 1 = 0 then 0
       else MIN_PAYLOAD_SIZE cfg + (length ?bs - 1 - 1) * PAYLOAD_SIZE cfg) +
       length (body (last ?bs))"
    by simp
  have n2: "2 \<le> length ?bs"
    using prepare_msg_count [OF res empty ne tot pos(1) le] big by simp
  from n2 la nsg have lp: "length (body (last ?bs)) \<le> PAYLOAD_SIZE cfg"
    by (simp add: capacity_def)
  from lf have l0: "0 < length (body (last ?bs))" by simp
  from n2 have "length ?bs - 1 - 1 = length ?bs - 2" "length ?bs - 1 \<noteq> 0" by simp_all
  with eq have "?L = MIN_PAYLOAD_SIZE cfg + (length ?bs - 2) * PAYLOAD_SIZE cfg +
      length (body (last ?bs))"
    by simp
  with l0 lp n2 show ?thesis by blast
qed

section \<open>Assembled examples\<close>

text \<open>
  A request of 1401 bytes (two packets at the spec's constants), one of exactly 1400 bytes
  followed by a zero-length entry, and one of 357000 bytes, 255 times \<open>PAYLOAD_SIZE\<close>
  (256 packets, the first one carrying \<open>MIN_PAYLOAD_SIZE\<close> bytes).
\<close>

lemmas prepare_eval = r2p2_prepare_msg_def total_payload_def prepare_loop.simps
  prepare_step_def prepare_alloc_def prepare_copy_def Let_def size_t_sub_def
  set_buffer_payload_size_def spec_consts_def empty_msg_def

definition ex_long :: "8 word list" where
  "ex_long = replicate 1401 0xAB"

definition ex_exact :: "8 word list" where
  "ex_exact = replicate 1400 0xAB"

definition ex_long_msg :: r2p2_msg where
  "ex_long_msg = \<lparr>buffers =
      [\<lparr>hdr = \<lparr>magic = 0xCC, header_size = 8, type_policy = 0, flags = 0x80, rid = 42,
                p_order = 2\<rparr>,
         body = replicate 256 0xAB, payload_size = 264\<rparr>,
       \<lparr>hdr = \<lparr>magic = 0xCC, header_size = 8, type_policy = 0, flags = 0x40, rid = 42,
                p_order = 1\<rparr>,
         body = replicate 1145 0xAB, payload_size = 1153\<rparr>],
     sender = ex_client, req_id = 42\<rparr>"

definition ex_exact_msg :: r2p2_msg where
  "ex_exact_msg = \<lparr>buffers =
      [\<lparr>hdr = \<lparr>magic = 0xCC, header_size = 8, type_policy = 0, flags = 0x80, rid = 42,
                p_order = 2\<rparr>,
         body = replicate 1400 0xAB, payload_size = 264\<rparr>,
       \<lparr>hdr = \<lparr>magic = 0xCC, header_size = 8, type_policy = 0, flags = 0x40, rid = 42,
                p_order = 1\<rparr>,
         body = [], payload_size = 8\<rparr>],
     sender = ex_client, req_id = 42\<rparr>"

lemma ex_long_assembled:
  "r2p2_prepare_msg spec_consts (empty_msg\<lparr>sender := ex_client\<rparr>) 2000 [ex_long] 0 0 42 =
     Inr (ex_long_msg, 1998)"
  by (simp add: prepare_eval ex_long_def ex_long_msg_def)

lemma ex_exact_assembled:
  "r2p2_prepare_msg spec_consts (empty_msg\<lparr>sender := ex_client\<rparr>) 2000 [ex_exact, []] 0 0 42 =
     Inr (ex_exact_msg, 1998)"
  by (simp add: prepare_eval ex_exact_def ex_exact_msg_def)

definition ex_huge :: "8 word list" where
  "ex_huge = replicate 357000 0xAB"

lemma unat_of_nat_8: "n \<le> 255 \<Longrightarrow> unat (of_nat n :: 8 word) = n"
  by (simp add: unat_of_nat)

section \<open>Headers of a multi-packet message\<close>

text \<open>
  C2, for messages of at most 255 packets. In a chain of more than one buffer assembled
  from an empty message, the head's header has exactly \<open>F_FLAG\<close> (so \<open>L_FLAG\<close> is
  clear when the two flags are distinct bits) and its \<open>p_order\<close> is the number of
  packets; the tail's header has exactly \<open>L_FLAG\<close>; every packet after the head has
  \<open>p_order\<close> equal to the number of packets before it, which is its sequence number
  when the packet after the head is number 1; and the packets strictly between head and
  tail have no flag.
\<close>

theorem multi_packet_headers:
  assumes res: "r2p2_prepare_msg cfg msg avail iov t p rq = Inr (m, left)"
    and empty: "buffers msg = []"
    and multi: "1 < length (buffers m)"
    and fits: "length (buffers m) \<le> 255"
  shows "flags (hdr (hd (buffers m))) = F_FLAG cfg \<and>
     unat (p_order (hdr (hd (buffers m)))) = length (buffers m) \<and>
     flags (hdr (last (buffers m))) = L_FLAG cfg \<and>
     (\<forall>i. 0 < i \<and> i < length (buffers m) \<longrightarrow>
        unat (p_order (hdr (buffers m ! i))) = i) \<and>
     (\<forall>i. 0 < i \<and> i < length (buffers m) - 1 \<longrightarrow> flags (hdr (buffers m ! i)) = 0) \<and>
     (F_FLAG cfg \<noteq> 0 \<longrightarrow> is_first cfg (hdr (hd (buffers m)))) \<and>
     (F_FLAG cfg AND L_FLAG cfg = 0 \<longrightarrow> \<not> is_last cfg (hdr (hd (buffers m)))) \<and>
     (L_FLAG cfg \<noteq> 0 \<longrightarrow> is_last cfg (hdr (last (buffers m))))"
proof -
  let ?bs = "buffers m"
  from prepare_msg_headers [OF res empty]
  have nm: "?bs \<noteq> []"
    and h0: "hdr (?bs ! 0) = (new_header cfg t p rq (of_nat (length ?bs)))
         \<lparr>flags := (if length ?bs = 1 then F_FLAG cfg OR L_FLAG cfg else F_FLAG cfg)\<rparr>"
    and hi: "\<And>i. 0 < i \<Longrightarrow> i < length ?bs \<Longrightarrow> hdr (?bs ! i) =
          (new_header cfg t p rq (of_nat i))
            \<lparr>flags := (if i = length ?bs - 1 then L_FLAG cfg else 0)\<rparr>"
    by simp_all
  from nm have hd: "hd ?bs = ?bs ! 0" by (simp add: hd_conv_nth)
  from nm have la: "last ?bs = ?bs ! (length ?bs - 1)" by (simp add: last_conv_nth)
  from multi have l1: "0 < length ?bs - 1" "length ?bs - 1 < length ?bs" by simp_all
  have f0: "flags (hdr (hd ?bs)) = F_FLAG cfg"
    using h0 multi by (simp add: hd new_header_def)
  have p0: "unat (p_order (hdr (hd ?bs))) = length ?bs"
    using h0 fits by (simp add: hd new_header_def unat_of_nat_8)
  have fl: "flags (hdr (last ?bs)) = L_FLAG cfg"
    using hi [OF l1] by (simp add: la new_header_def)
  have pi: "unat (p_order (hdr (?bs ! i))) = i" if "0 < i" "i < length ?bs" for i
    using hi [OF that] that fits by (simp add: new_header_def unat_of_nat_8)
  have fi: "flags (hdr (?bs ! i)) = 0" if "0 < i" "i < length ?bs - 1" for i
    using hi [of i] that by (simp add: new_header_def)
  show ?thesis
    using f0 p0 fl pi fi by (simp add: is_first_def is_last_def)
qed

theorem multi_packet_headers_witness:
  "r2p2_prepare_msg spec_consts (empty_msg\<lparr>sender := ex_client\<rparr>) 2000 [ex_long] 0 0 42 =
     Inr (ex_long_msg, 1998) \<and>
   flags (hdr (hd (buffers ex_long_msg))) = 0x80 \<and>
   unat (p_order (hdr (hd (buffers ex_long_msg)))) = 2 \<and>
   flags (hdr (last (buffers ex_long_msg))) = 0x40 \<and>
   unat (p_order (hdr (buffers ex_long_msg ! 1))) = 1"
proof -
  have e: "buffers (empty_msg\<lparr>sender := ex_client\<rparr>) = []" by simp
  have l: "1 < length (buffers ex_long_msg)" "length (buffers ex_long_msg) \<le> 255"
    by (simp_all add: ex_long_msg_def)
  from multi_packet_headers [OF ex_long_assembled e l] ex_long_assembled
  show ?thesis by (simp add: spec_consts_def ex_long_msg_def)
qed

text \<open>
  C2 as stated fails for a message of 256 packets: \<open>p_order\<close> is one byte, so the
  head's \<open>p_order\<close> is 0, not the packet count.
\<close>

theorem head_order_wraps_counterexample:
  "\<not> isl (r2p2_prepare_msg spec_consts empty_msg 400000 [ex_huge] 0 0 42) \<and>
   length (buffers (fst (projr
     (r2p2_prepare_msg spec_consts empty_msg 400000 [ex_huge] 0 0 42)))) = 256 \<and>
   unat (p_order (hdr (hd (buffers (fst (projr
     (r2p2_prepare_msg spec_consts empty_msg 400000 [ex_huge] 0 0 42))))))) = 0"
proof -
  have e: "buffers empty_msg = []" by simp
  have ne: "[ex_huge] \<noteq> []" "[] \<notin> set [ex_huge]" by (simp_all add: ex_huge_def)
  have L: "sum_list (map length [ex_huge]) = 357000" by (simp add: ex_huge_def)
  have tot: "sum_list (map length [ex_huge]) < 2 ^ 32" by (simp add: ex_huge_def)
  have c: "0 < MIN_PAYLOAD_SIZE spec_consts" "0 < PAYLOAD_SIZE spec_consts"
    "MIN_PAYLOAD_SIZE spec_consts \<le> PAYLOAD_SIZE spec_consts"
    "PAYLOAD_SIZE spec_consts < sum_list (map length [ex_huge])"
    "sum_list (map length [ex_huge]) + length [ex_huge] \<le> 400000"
    by (simp_all add: spec_consts_def ex_huge_def)
  from prepare_msg_succeeds [OF e ne(1) lens_of_total [OF tot] c(1,2,5)]
  obtain m left where
    res: "r2p2_prepare_msg spec_consts empty_msg 400000 [ex_huge] 0 0 42 = Inr (m, left)"
    by blast
  from prepare_msg_total_multi [OF res e ne(2) tot c(4) c(1,2,3)]
  obtain x where "0 < x" "x \<le> PAYLOAD_SIZE spec_consts" "2 \<le> length (buffers m)"
    "sum_list (map length [ex_huge]) =
       MIN_PAYLOAD_SIZE spec_consts + (length (buffers m) - 2) * PAYLOAD_SIZE spec_consts + x"
    by blast
  then have "0 < x" "x \<le> 1400" "2 \<le> length (buffers m)"
    "357000 = 256 + (length (buffers m) - 2) * 1400 + x"
    by (simp_all add: spec_consts_def ex_huge_def)
  then have n: "length (buffers m) = 256" by arith
  from prepare_msg_headers [OF res e] n
  have "buffers m \<noteq> []" and "p_order (hdr (buffers m ! 0)) = 0"
    by (simp_all add: new_header_def)
  then have "unat (p_order (hdr (hd (buffers m)))) = 0" by (simp add: hd_conv_nth)
  with res n show ?thesis by simp
qed

section \<open>A zero-length entry behind a full first buffer\<close>

text \<open>
  C1 at the vector of 1400 bytes followed by a zero-length entry. The message is
  single-packet, so the first buffer takes all 1400 bytes; the zero-length entry then
  makes the loop close that buffer as the first of several, with payload size
  \<open>MIN_PAYLOAD_SIZE\<close> plus the header. The chain carries 256 of the 1400 bytes. For
  vectors without a zero-length entry the chain carries the vector
  (\<open>prepare_msg_roundtrip\<close>).
\<close>

theorem prepare_msg_trailing_empty_entry:
  "r2p2_prepare_msg spec_consts (empty_msg\<lparr>sender := ex_client\<rparr>) 2000 [ex_exact, []] 0 0 42 =
     Inr (ex_exact_msg, 1998) \<and>
   body (hd (buffers ex_exact_msg)) = replicate 1400 0xAB \<and>
   payload_size (hd (buffers ex_exact_msg)) = 256 + 8 \<and>
   chain_payload spec_consts ex_exact_msg = replicate 256 0xAB \<and>
   concat [ex_exact, []] = replicate 1400 0xAB \<and>
   chain_payload spec_consts ex_exact_msg \<noteq> concat [ex_exact, []]"
proof -
  have a: "chain_payload spec_consts ex_exact_msg = replicate 256 0xAB"
    by (simp add: chain_payload_def buffer_payload_def ex_exact_msg_def spec_consts_def)
  have b: "concat [ex_exact, []] = replicate 1400 0xAB" by (simp add: ex_exact_def)
  have "length (replicate 256 (0xAB :: 8 word)) \<noteq> length (replicate 1400 (0xAB :: 8 word))"
    by simp
  then have "replicate 256 (0xAB :: 8 word) \<noteq> replicate 1400 0xAB" by metis
  with a b ex_exact_assembled show ?thesis by (simp add: ex_exact_msg_def)
qed

section \<open>A long request, its acknowledgement and a second request\<close>

text \<open>
  \<open>ex_sent\<close>: the engine after sending the 1401-byte request; \<open>ex_acked\<close>: after
  the server's ACK has come in; \<open>ex_next\<close>: after a second, one-byte request.
\<close>

definition ex_sent :: r2p2_state where
  "ex_sent = projr (r2p2_send_req spec_consts [ex_long] ex_ctx (Some ex_transport) 42 ex_state)"

definition ex_acked :: r2p2_state where
  "ex_acked = projr (handle_incoming_pck spec_consts ex_ack 11 ex_server ex_client ex_sent)"

definition ex_next :: r2p2_state where
  "ex_next = projr (r2p2_send_req spec_consts [[1]] ex_ctx (Some ex_transport) 43 ex_acked)"

lemma ex_transport_local: "t_local_host ex_transport = ex_client"
  by (simp add: ex_transport_def ex_client_def)

lemma zero_request: "request (zero_client_pair\<lparr>ctx := c\<rparr>) = empty_msg"
  by (simp add: zero_client_pair_def)

lemmas send_req_eval = r2p2_send_req_def alloc_client_pair_def Let_def
  add_to_pending_client_pairs_def add_to_list_def set_client_pair_def call_def

lemma ex_sent_eq:
  "r2p2_send_req spec_consts [ex_long] ex_ctx (Some ex_transport) 42 ex_state =
   Inr (ex_state\<lparr>client_pairs :=
          [\<lparr>taken = True,
            elem = zero_client_pair\<lparr>ctx := ex_ctx, impl_data := Some 5, timer := Some 9,
                     request := ex_long_msg, state := R2P2_W_ACK\<rparr>\<rparr>,
           \<lparr>taken = False, elem = zero_client_pair\<rparr>],
        free_buffers := 1998, pending_client_pairs := [0],
        trace := [Buf_list_send [hd (buffers ex_long_msg)] \<lparr>ip = 0x0A000001, port = 8000\<rparr>
                    (Some 5)]\<rparr>)"
proof -
  have a: "alloc_object (client_pairs ex_state) = Some 0" by (rule alloc_object_ex_state)
  have p: "r2p2_prepare_msg spec_consts (empty_msg\<lparr>sender := t_local_host ex_transport\<rparr>)
      (free_buffers ex_state) [ex_long] (REQUEST_MSG spec_consts) (routing_policy ex_ctx) 42 =
     Inr (ex_long_msg, 1998)"
    using ex_long_assembled
    by (simp add: ex_transport_local ex_state_def spec_consts_def ex_ctx_def)
  have l: "length (buffers ex_long_msg) = 2" "buffers ex_long_msg \<noteq> []" "LINUX spec_consts"
    by (simp_all add: ex_long_msg_def spec_consts_def)
  show ?thesis
    by (simp add: send_req_eval a p l zero_request)
      (simp add: ex_state_def ex_ctx_def ex_transport_def zero_client_pair_def)
qed

definition ex_sent_pair :: r2p2_client_pair where
  "ex_sent_pair = zero_client_pair\<lparr>ctx := ex_ctx, impl_data := Some 5, timer := Some 9,
     request := ex_long_msg, state := R2P2_W_ACK\<rparr>"

lemma ex_sent_state:
  "ex_sent = ex_state\<lparr>client_pairs :=
          [\<lparr>taken = True, elem = ex_sent_pair\<rparr>, \<lparr>taken = False, elem = zero_client_pair\<rparr>],
        free_buffers := 1998, pending_client_pairs := [0],
        trace := [Buf_list_send [hd (buffers ex_long_msg)] \<lparr>ip = 0x0A000001, port = 8000\<rparr>
                    (Some 5)]\<rparr>"
  by (simp add: ex_sent_def ex_sent_eq ex_sent_pair_def)

lemma ex_ack_facts:
  "is_response spec_consts (hdr ex_ack)" "rid (hdr ex_ack) = 42"
  "\<not> nat (11 mod 2 ^ 32) < HEADER_SIZE spec_consts"
  "(11 :: int) = int (HEADER_SIZE spec_consts) + 3"
  by (simp_all add: ex_ack_def is_response_def get_msg_type_def spec_consts_def)

lemma ex_sent_pair_facts:
  "state ex_sent_pair = R2P2_W_ACK" "request ex_sent_pair = ex_long_msg"
  "port (sender (request ex_sent_pair)) = 4000" "req_id (request ex_sent_pair) = 42"
  "buffers (request ex_sent_pair) \<noteq> []"
  by (simp_all add: ex_sent_pair_def ex_long_msg_def ex_client_def)

lemma ex_acked_eq:
  "handle_incoming_pck spec_consts ex_ack 11 ex_server ex_client ex_sent =
   Inr (ex_sent\<lparr>client_pairs :=
          [\<lparr>taken = True,
            elem = ex_sent_pair\<lparr>reply := empty_msg\<lparr>sender := ex_server\<rparr>,
                     state := R2P2_W_RESPONSE\<rparr>\<rparr>,
           \<lparr>taken = False, elem = zero_client_pair\<rparr>],
        free_buffers := 1999,
        trace := trace ex_sent @
          [Free_buffer ex_ack, Buf_list_send (tl (buffers ex_long_msg)) ex_server (Some 5)]\<rparr>)"
proof -
  have f: "find_in_pending_client_pairs ex_sent 42 ex_client = Some 0"
    by (simp add: find_in_pending_client_pairs_def ex_sent_state ex_sent_pair_facts ex_client_def
        ex_long_msg_def)
  have e: "elem (client_pairs ex_sent ! 0) = ex_sent_pair" by (simp add: ex_sent_state)
  have r: "reply ex_sent_pair = empty_msg" "impl_data ex_sent_pair = Some 5"
    "buffers ex_long_msg \<noteq> []"
    by (simp_all add: ex_sent_pair_def zero_client_pair_def ex_long_msg_def)
  show ?thesis
    by (simp add: handle_incoming_pck_def ex_ack_facts handle_response_def f e Let_def
        ex_sent_pair_facts r)
      (simp add: ex_sent_state set_client_pair_def free_buffer_def call_def ex_state_def
        spec_consts_def)
qed

lemma ex_acked_state:
  "ex_acked = ex_sent\<lparr>client_pairs :=
          [\<lparr>taken = True,
            elem = ex_sent_pair\<lparr>reply := empty_msg\<lparr>sender := ex_server\<rparr>,
                     state := R2P2_W_RESPONSE\<rparr>\<rparr>,
           \<lparr>taken = False, elem = zero_client_pair\<rparr>],
        free_buffers := 1999,
        trace := trace ex_sent @
          [Free_buffer ex_ack, Buf_list_send (tl (buffers ex_long_msg)) ex_server (Some 5)]\<rparr>"
  by (simp add: ex_acked_def ex_acked_eq)

lemma prepare_msg_single_entry_empty:
  assumes "buffers msg = []" and "length v \<le> PAYLOAD_SIZE cfg" and "length v < 2 ^ 32"
    and "0 < n"
  shows "r2p2_prepare_msg cfg msg n [v] t p rq =
     Inr (msg\<lparr>buffers := [single_buffer cfg v t p rq], req_id := rq\<rparr>, n - 1)"
proof -
  from assms(1) have "msg\<lparr>buffers := []\<rparr> = msg" by (cases msg) simp
  with prepare_msg_single_entry [OF assms(2-4), of msg t p rq] show ?thesis by simp
qed

lemma alloc_object_second:
  "taken x \<Longrightarrow> \<not> taken y \<Longrightarrow> alloc_object (x # y # mp) = Some 1"
  by (simp add: alloc_object_def upt_conv_Cons del: upt_Suc)

lemma ex_next_facts:
  "\<not> isl (r2p2_send_req spec_consts [[1]] ex_ctx (Some ex_transport) 43 ex_acked)"
  "pending_client_pairs ex_next = [1, 0]"
  "elem (client_pairs ex_next ! 0) =
     ex_sent_pair\<lparr>reply := empty_msg\<lparr>sender := ex_server\<rparr>, state := R2P2_W_RESPONSE\<rparr>"
  "state (elem (client_pairs ex_next ! 1)) = R2P2_W_RESPONSE"
proof -
  have a: "alloc_object (client_pairs ex_acked) = Some 1"
    by (simp add: ex_acked_state alloc_object_second)
  have p: "r2p2_prepare_msg spec_consts (empty_msg\<lparr>sender := t_local_host ex_transport\<rparr>)
      (free_buffers ex_acked) [[1]] (REQUEST_MSG spec_consts) (routing_policy ex_ctx) 43 =
     Inr (empty_msg\<lparr>sender := t_local_host ex_transport,
            buffers := [single_buffer spec_consts [1] (REQUEST_MSG spec_consts)
               (routing_policy ex_ctx) 43], req_id := 43\<rparr>, 1998)"
    using prepare_msg_single_entry_empty [of "empty_msg\<lparr>sender := t_local_host ex_transport\<rparr>"
        "[1]" spec_consts "free_buffers ex_acked"]
    by (simp add: ex_acked_state spec_consts_def)
  have r: "r2p2_send_req spec_consts [[1]] ex_ctx (Some ex_transport) 43 ex_acked =
      Inr (ex_acked\<lparr>client_pairs := (client_pairs ex_acked)[1 := \<lparr>taken = True,
             elem = zero_client_pair\<lparr>ctx := ex_ctx, impl_data := t_impl_data ex_transport,
               on_free := t_on_free ex_transport, timer := t_timer ex_transport,
               request := empty_msg\<lparr>sender := t_local_host ex_transport,
                  buffers := [single_buffer spec_consts [1] (REQUEST_MSG spec_consts)
                     (routing_policy ex_ctx) 43], req_id := 43\<rparr>,
               state := R2P2_W_RESPONSE\<rparr>\<rparr>],
           free_buffers := 1998, pending_client_pairs := 1 # pending_client_pairs ex_acked,
           trace := trace ex_acked @ [Buf_list_send [single_buffer spec_consts [1]
               (REQUEST_MSG spec_consts) (routing_policy ex_ctx) 43] (destination ex_ctx)
               (t_impl_data ex_transport)]\<rparr>)"
    by (simp add: send_req_eval a p zero_request)
      (simp add: spec_consts_def ex_acked_state ex_sent_state ex_state_def)
  show "\<not> isl (r2p2_send_req spec_consts [[1]] ex_ctx (Some ex_transport) 43 ex_acked)"
    by (simp add: r)
  show "pending_client_pairs ex_next = [1, 0]"
    by (simp add: ex_next_def r) (simp add: ex_acked_state ex_sent_state)
  show "elem (client_pairs ex_next ! 0) =
     ex_sent_pair\<lparr>reply := empty_msg\<lparr>sender := ex_server\<rparr>, state := R2P2_W_RESPONSE\<rparr>"
    by (simp add: ex_next_def r) (simp add: ex_acked_state)
  show "state (elem (client_pairs ex_next ! 1)) = R2P2_W_RESPONSE"
    by (simp add: ex_next_def r) (simp add: ex_acked_state)
qed

section \<open>The state of a pair after \<^verbatim>\<open>r2p2_send_req\<close>\<close>

text \<open>
  C8, for the pair that the call inserts. When \<^verbatim>\<open>r2p2_send_req\<close> completes, it has
  allocated a slot, assembled the request and put the slot at the head of the
  pending-client list; that pair is in \<open>W_ACK\<close> iff the assembled request has more
  than one buffer and in \<open>W_RESPONSE\<close> iff it has exactly one; every other slot is
  as it was. For a vector without a zero-length entry, more than one buffer means a total
  payload above \<open>PAYLOAD_SIZE\<close>.
\<close>

theorem send_req_state:
  assumes ok: "r2p2_send_req cfg iov c (Some tf) rnd s = Inr s'"
  shows "\<exists>cp m left.
     alloc_object (client_pairs s) = Some cp \<and>
     r2p2_prepare_msg cfg (empty_msg\<lparr>sender := t_local_host tf\<rparr>) (free_buffers s) iov
        (REQUEST_MSG cfg) (routing_policy c) rnd = Inr (m, left) \<and>
     pending_client_pairs s' = cp # pending_client_pairs s \<and>
     (state (elem (client_pairs s' ! cp)) = R2P2_W_ACK) = (1 < length (buffers m)) \<and>
     (state (elem (client_pairs s' ! cp)) = R2P2_W_RESPONSE) = (length (buffers m) = 1) \<and>
     (\<forall>q. q \<noteq> cp \<longrightarrow> client_pairs s' ! q = client_pairs s ! q) \<and>
     ([] \<notin> set iov \<and> sum_list (map length iov) < 2 ^ 32 \<and> 0 < MIN_PAYLOAD_SIZE cfg \<and>
      MIN_PAYLOAD_SIZE cfg \<le> PAYLOAD_SIZE cfg \<longrightarrow>
        (state (elem (client_pairs s' ! cp)) = R2P2_W_ACK) =
        (PAYLOAD_SIZE cfg < sum_list (map length iov)))"
proof -
  let ?msg = "empty_msg\<lparr>sender := t_local_host tf\<rparr>"
  let ?prep = "r2p2_prepare_msg cfg ?msg (free_buffers s) iov (REQUEST_MSG cfg)
     (routing_policy c) rnd"
  from ok obtain cp where a: "alloc_object (client_pairs s) = Some cp"
    by (cases "alloc_object (client_pairs s)") (simp_all add: r2p2_send_req_def alloc_client_pair_def)
  from alloc_object_SomeD [OF a] have lt: "cp < length (client_pairs s)" by simp
  from ok a obtain m left where p: "?prep = Inr (m, left)"
    by (cases ?prep) (auto simp: r2p2_send_req_def alloc_client_pair_def Let_def zero_request)
  from ok a p have ne: "buffers m \<noteq> []"
    by (auto simp: r2p2_send_req_def alloc_client_pair_def Let_def zero_request
        split: if_splits)
  let ?st = "if length (buffers m) \<le> 1 then R2P2_W_RESPONSE else R2P2_W_ACK"
  from ok a p ne lt have pend: "pending_client_pairs s' = cp # pending_client_pairs s"
    and st: "state (elem (client_pairs s' ! cp)) = ?st"
    and other: "\<forall>q. q \<noteq> cp \<longrightarrow> client_pairs s' ! q = client_pairs s ! q"
    by (auto simp: send_req_eval zero_request split: if_splits)
  from ne have l0: "buffers m \<noteq> []" .
  have empty: "buffers ?msg = []" by (simp add: empty_msg_def)
  have ack: "(state (elem (client_pairs s' ! cp)) = R2P2_W_ACK) = (1 < length (buffers m))"
    using st by auto
  have resp: "(state (elem (client_pairs s' ! cp)) = R2P2_W_RESPONSE) = (length (buffers m) = 1)"
    using st l0 by (cases "buffers m") (auto split: if_splits)
  have tot: "(state (elem (client_pairs s' ! cp)) = R2P2_W_ACK) =
        (PAYLOAD_SIZE cfg < sum_list (map length iov))"
    if that: "[] \<notin> set iov \<and> sum_list (map length iov) < 2 ^ 32 \<and> 0 < MIN_PAYLOAD_SIZE cfg \<and>
      MIN_PAYLOAD_SIZE cfg \<le> PAYLOAD_SIZE cfg"
  proof -
    from that have "(1 < length (buffers m)) = (PAYLOAD_SIZE cfg < sum_list (map length iov))"
      by (intro prepare_msg_count [OF p empty]) simp_all
    with ack show ?thesis by simp
  qed
  show ?thesis
    apply (rule exI [of _ cp], rule exI [of _ m], rule exI [of _ left])
    apply (intro conjI impI)
          apply (rule a)
         apply (rule p)
        apply (rule pend)
       apply (rule ack)
      apply (rule resp)
     apply (rule other)
    apply (erule tot)
    done
qed

theorem send_req_state_witness:
  "state (elem (client_pairs ex_sent ! 0)) = R2P2_W_ACK \<and>
   pending_client_pairs ex_sent = [0] \<and>
   PAYLOAD_SIZE spec_consts < sum_list (map length [ex_long])"
proof -
  have ok: "r2p2_send_req spec_consts [ex_long] ex_ctx (Some ex_transport) 42 ex_state = Inr ex_sent"
    by (simp add: ex_sent_def ex_sent_eq)
  have h: "[] \<notin> set [ex_long]" "sum_list (map length [ex_long]) < 2 ^ 32"
    "0 < MIN_PAYLOAD_SIZE spec_consts" "MIN_PAYLOAD_SIZE spec_consts \<le> PAYLOAD_SIZE spec_consts"
    "PAYLOAD_SIZE spec_consts < sum_list (map length [ex_long])"
    "pending_client_pairs ex_state = []"
    by (simp_all add: ex_long_def spec_consts_def ex_state_def)
  from send_req_state [OF ok] alloc_object_ex_state h show ?thesis by auto
qed

text \<open>
  C8 as stated fails for a pair inserted earlier: the pair of the 1401-byte request has
  moved to \<open>W_RESPONSE\<close> on its ACK and is still pending, with its two-buffer request,
  when the second \<^verbatim>\<open>r2p2_send_req\<close> completes.
\<close>

theorem acked_pair_counterexample:
  "r2p2_send_req spec_consts [ex_long] ex_ctx (Some ex_transport) 42 ex_state = Inr ex_sent \<and>
   handle_incoming_pck spec_consts ex_ack 11 ex_server ex_client ex_sent = Inr ex_acked \<and>
   r2p2_send_req spec_consts [[1]] ex_ctx (Some ex_transport) 43 ex_acked = Inr ex_next \<and>
   0 \<in> set (pending_client_pairs ex_next) \<and>
   length (buffers (request (elem (client_pairs ex_next ! 0)))) = 2 \<and>
   state (elem (client_pairs ex_next ! 0)) = R2P2_W_RESPONSE \<and>
   state (elem (client_pairs ex_next ! 0)) \<noteq> R2P2_W_ACK"
proof -
  have a: "r2p2_send_req spec_consts [ex_long] ex_ctx (Some ex_transport) 42 ex_state = Inr ex_sent"
    by (simp add: ex_sent_def ex_sent_eq)
  have b: "handle_incoming_pck spec_consts ex_ack 11 ex_server ex_client ex_sent = Inr ex_acked"
    by (simp add: ex_acked_def ex_acked_eq)
  have c: "r2p2_send_req spec_consts [[1]] ex_ctx (Some ex_transport) 43 ex_acked = Inr ex_next"
    using ex_next_facts(1) by (simp add: ex_next_def)
  have d: "length (buffers ex_long_msg) = 2" by (simp add: ex_long_msg_def)
  show ?thesis
    by (simp add: a b c ex_next_facts(2,3) ex_sent_pair_facts d)
qed

end
